theory Spec2Isabelle
  imports Main "HOL-Library.List_Lexorder" "HOL-Library.Char_ord"
begin

section \<open>Go strings, checked indexing and slicing\<close>

text \<open>
  A Go \<^verbatim>\<open>string\<close> is a sequence of bytes: it is modelled as a \<^typ>\<open>string\<close>
  (one \<^typ>\<open>char\<close> per byte).  Indexing \<^verbatim>\<open>s[k]\<close> and slicing \<^verbatim>\<open>s[a:b]\<close> panic
  when out of range; the model returns \<open>None\<close> there.
\<close>

abbreviation bslash :: char where "bslash \<equiv> CHR 0x5C"
abbreviation dquote :: char where "dquote \<equiv> CHR 0x22"
abbreviation squote :: char where "squote \<equiv> CHR 0x27"
abbreviation newline :: char where "newline \<equiv> CHR 0x0A"
abbreviation tab :: char where "tab \<equiv> CHR 0x09"
abbreviation cr :: char where "cr \<equiv> CHR 0x0D"

definition byte_at :: "string \<Rightarrow> nat \<Rightarrow> char option" where
  "byte_at s k = (if k < length s then Some (s ! k) else None)"

definition slice :: "string \<Rightarrow> nat \<Rightarrow> nat \<Rightarrow> string option" where
  "slice s a b = (if a \<le> b \<and> b \<le> length s then Some (take (b - a) (drop a s)) else None)"

definition slice_from :: "string \<Rightarrow> nat \<Rightarrow> string option" where
  "slice_from s a = (if a \<le> length s then Some (drop a s) else None)"

text \<open>\<^verbatim>\<open>rune(b)\<close> for a byte, and \<^verbatim>\<open>rune(v)\<close> for an \<^verbatim>\<open>int\<close>: the low 32 bits, signed.\<close>

definition rune_of_byte :: "char \<Rightarrow> int" where
  "rune_of_byte c = of_char c"

definition rune_of_int :: "int \<Rightarrow> int" where
  "rune_of_int v = (v + 2147483648) mod 4294967296 - 2147483648"

text \<open>
  \<^verbatim>\<open>string(result)\<close> for a \<^verbatim>\<open>[]rune\<close>: every rune is written in UTF-8, a rune that is
  not a Unicode scalar value as U+FFFD.
\<close>

definition byte_of :: "int \<Rightarrow> char" where
  "byte_of v = char_of (nat (v mod 256))"

definition encode_rune :: "int \<Rightarrow> string" where
  "encode_rune r =
     (if r < 0 \<or> 1114111 < r \<or> (55296 \<le> r \<and> r \<le> 57343) then
        [byte_of 239, byte_of 191, byte_of 189]
      else if r < 128 then [byte_of r]
      else if r < 2048 then [byte_of (192 + r div 64), byte_of (128 + r mod 64)]
      else if r < 65536 then
        [byte_of (224 + r div 4096), byte_of (128 + (r div 64) mod 64), byte_of (128 + r mod 64)]
      else
        [byte_of (240 + r div 262144), byte_of (128 + (r div 4096) mod 64),
         byte_of (128 + (r div 64) mod 64), byte_of (128 + r mod 64)])"

definition string_of_runes :: "int list \<Rightarrow> string" where
  "string_of_runes rs = concat (map encode_rune rs)"

section \<open>White space\<close>

text \<open>
  The white-space characters of Unicode, as \<^verbatim>\<open>unicode.IsSpace\<close> and the scanner of
  \<^verbatim>\<open>fmt\<close> know them, in UTF-8.  \<open>strip_front seqs s\<close> takes the leading characters of
  \<open>s\<close> that are in \<open>seqs\<close> away.
\<close>

definition space_runes :: "string list" where
  "space_runes =
     [[CHR 0x09], [CHR 0x0A], [CHR 0x0B], [CHR 0x0C], [CHR 0x0D], [CHR 0x20],
      [CHR 0xC2, CHR 0x85], [CHR 0xC2, CHR 0xA0], [CHR 0xE1, CHR 0x9A, CHR 0x80],
      [CHR 0xE2, CHR 0x80, CHR 0x80], [CHR 0xE2, CHR 0x80, CHR 0x81],
      [CHR 0xE2, CHR 0x80, CHR 0x82], [CHR 0xE2, CHR 0x80, CHR 0x83],
      [CHR 0xE2, CHR 0x80, CHR 0x84], [CHR 0xE2, CHR 0x80, CHR 0x85],
      [CHR 0xE2, CHR 0x80, CHR 0x86], [CHR 0xE2, CHR 0x80, CHR 0x87],
      [CHR 0xE2, CHR 0x80, CHR 0x88], [CHR 0xE2, CHR 0x80, CHR 0x89],
      [CHR 0xE2, CHR 0x80, CHR 0x8A], [CHR 0xE2, CHR 0x80, CHR 0xA8],
      [CHR 0xE2, CHR 0x80, CHR 0xA9], [CHR 0xE2, CHR 0x80, CHR 0xAF],
      [CHR 0xE2, CHR 0x81, CHR 0x9F], [CHR 0xE3, CHR 0x80, CHR 0x80]]"

function strip_front :: "string list \<Rightarrow> string \<Rightarrow> string" where
  "strip_front seqs s =
     (case find (\<lambda>q. q \<noteq> [] \<and> take (length q) s = q) seqs of
        None \<Rightarrow> s
      | Some q \<Rightarrow> strip_front seqs (drop (length q) s))"
  by pat_completeness auto
termination
proof (relation "measure (\<lambda>(seqs, s). length s)")
  show "wf (measure (\<lambda>(seqs, s). length s))" by simp
next
  fix seqs :: "string list" and s q :: string
  assume "find (\<lambda>q. q \<noteq> [] \<and> take (length q) s = q) seqs = Some q"
  then have "q \<noteq> [] \<and> take (length q) s = q" by (auto simp: find_Some_iff)
  then have "q \<noteq> []" and "length (take (length q) s) = length q" by simp_all
  then have "length s - length q < length s" by (cases q) auto
  then show "((seqs, drop (length q) s), (seqs, s)) \<in> measure (\<lambda>(seqs, s). length s)"
    by simp
qed

declare strip_front.simps [simp del]

section \<open>The integer scanner of the standard library\<close>

text \<open>
  \<^verbatim>\<open>fmt.Sscanf(str, "%x", &val)\<close> and \<^verbatim>\<open>fmt.Sscanf(str, "%o", &val)\<close> with
  \<^verbatim>\<open>var val int\<close> (so \<open>0\<close> before the call) and the returned error dropped, as the
  decoder calls them.  The scanner skips the leading white space of Unicode, where a
  newline is an error; it takes an optional sign, then the longest run of digits of the
  base, at least one; the value must fit 64 signed bits.  On any error \<^verbatim>\<open>val\<close> keeps
  its \<open>0\<close>.  Input after the digits is ignored.
\<close>

definition blank_runes :: "string list" where
  "blank_runes = filter (\<lambda>q. q \<noteq> [newline]) space_runes"

definition digit_val :: "char \<Rightarrow> nat option" where
  "digit_val c =
     (let n = (of_char c :: nat) in
      if 48 \<le> n \<and> n \<le> 57 then Some (n - 48)
      else if 97 \<le> n \<and> n \<le> 102 then Some (n - 87)
      else if 65 \<le> n \<and> n \<le> 70 then Some (n - 55)
      else None)"

definition is_digit_of :: "nat \<Rightarrow> char \<Rightarrow> bool" where
  "is_digit_of base c = (case digit_val c of None \<Rightarrow> False | Some d \<Rightarrow> d < base)"

fun digits_value :: "nat \<Rightarrow> nat \<Rightarrow> string \<Rightarrow> nat" where
  "digits_value base acc [] = acc"
| "digits_value base acc (c # cs) =
     digits_value base (acc * base + (case digit_val c of None \<Rightarrow> 0 | Some d \<Rightarrow> d)) cs"

definition sscanf_int :: "nat \<Rightarrow> string \<Rightarrow> int" where
  "sscanf_int base str =
     (let rest = strip_front blank_runes str;
          neg = (rest \<noteq> [] \<and> hd rest = CHR ''-'');
          body = (if rest \<noteq> [] \<and> (hd rest = CHR ''-'' \<or> hd rest = CHR ''+'') then tl rest else rest);
          tok = takeWhile (is_digit_of base) body;
          v = (if neg then - int (digits_value base 0 tok) else int (digits_value base 0 tok))
      in if tok = [] then 0
         else if v < - 9223372036854775808 \<or> 9223372036854775807 < v then 0
         else v)"

section \<open>The escape decoder\<close>

definition is_octal :: "char \<Rightarrow> bool" where
  "is_octal c = (CHR ''0'' \<le> c \<and> c \<le> CHR ''7'')"

text \<open>
  The two inner loops of the decoder:
  \<^verbatim>\<open>for end < len(s) && end < lim && s[end] >= '0' && s[end] <= '7' { end++ }\<close> and
  \<^verbatim>\<open>for end < len(s) && s[end] != '}' { end++ }\<close>.
\<close>

function octal_end :: "string \<Rightarrow> nat \<Rightarrow> nat \<Rightarrow> nat option" where
  "octal_end s lim e =
     (if e < length s \<and> e < lim then
        (case byte_at s e of
           None \<Rightarrow> None
         | Some d \<Rightarrow> if is_octal d then octal_end s lim (e + 1) else Some e)
      else Some e)"
  by pat_completeness auto
termination
  by (relation "measure (\<lambda>(s, lim, e). lim - e)") auto

function brace_end :: "string \<Rightarrow> nat \<Rightarrow> nat option" where
  "brace_end s e =
     (if e < length s then
        (case byte_at s e of
           None \<Rightarrow> None
         | Some d \<Rightarrow> if d \<noteq> CHR ''}'' then brace_end s (e + 1) else Some e)
      else Some e)"
  by pat_completeness auto
termination
  by (relation "measure (\<lambda>(s, e). length s - e)") auto

declare octal_end.simps [simp del] brace_end.simps [simp del]

text \<open>
  One pass through the \<^verbatim>\<open>switch s[i+1]\<close> of \<^verbatim>\<open>unescapeJSString\<close>, entered with
  \<^verbatim>\<open>s[i] == '\\'\<close> and \<^verbatim>\<open>i+1 < len(s)\<close>: the rune appended and the next value of
  \<^verbatim>\<open>i\<close>; \<open>None\<close> is a panic.
\<close>

definition escape_octal :: "string \<Rightarrow> nat \<Rightarrow> nat \<Rightarrow> (int \<times> nat) option" where
  "escape_octal s i start =
     (case octal_end s (i + 4) start of
        None \<Rightarrow> None
      | Some e \<Rightarrow>
          (case slice s (i + 1) e of
             None \<Rightarrow> None
           | Some octal \<Rightarrow> Some (rune_of_int (sscanf_int 8 octal), e)))"

definition escape_hex :: "string \<Rightarrow> nat \<Rightarrow> (int \<times> nat) option" where
  "escape_hex s i =
     (if i + 3 < length s then
        (case slice s (i + 2) (i + 4) of
           None \<Rightarrow> None
         | Some hex \<Rightarrow> Some (rune_of_int (sscanf_int 16 hex), i + 4))
      else Some (rune_of_byte (CHR ''x''), i + 2))"

definition escape_unicode :: "string \<Rightarrow> nat \<Rightarrow> (int \<times> nat) option" where
  "escape_unicode s i =
     (if i + 2 < length s \<and> byte_at s (i + 2) = Some (CHR ''{'') then
        (case brace_end s (i + 3) of
           None \<Rightarrow> None
         | Some e \<Rightarrow>
             if e < length s then
               (case slice s (i + 3) e of
                  None \<Rightarrow> None
                | Some hex \<Rightarrow> Some (rune_of_int (sscanf_int 16 hex), e + 1))
             else Some (rune_of_byte (CHR ''u''), i + 2))
      else if i + 5 < length s then
        (case slice s (i + 2) (i + 6) of
           None \<Rightarrow> None
         | Some hex \<Rightarrow> Some (rune_of_int (sscanf_int 16 hex), i + 6))
      else Some (rune_of_byte (CHR ''u''), i + 2))"

definition escape_step :: "string \<Rightarrow> nat \<Rightarrow> (int \<times> nat) option" where
  "escape_step s i =
     (case byte_at s (i + 1) of
        None \<Rightarrow> None
      | Some c \<Rightarrow>
          if c = CHR ''n'' then Some (10, i + 2)
          else if c = CHR ''t'' then Some (9, i + 2)
          else if c = CHR ''r'' then Some (13, i + 2)
          else if c = CHR ''b'' then Some (8, i + 2)
          else if c = CHR ''f'' then Some (12, i + 2)
          else if c = CHR ''v'' then Some (11, i + 2)
          else if c = CHR ''0'' then
            (if i + 2 < length s \<and> (case byte_at s (i + 2) of None \<Rightarrow> False | Some d \<Rightarrow> is_octal d)
             then escape_octal s i (i + 2)
             else Some (0, i + 2))
          else if CHR ''1'' \<le> c \<and> c \<le> CHR ''7'' then escape_octal s i (i + 1)
          else if c = CHR ''x'' then escape_hex s i
          else if c = CHR ''u'' then escape_unicode s i
          else if c = bslash then Some (rune_of_byte bslash, i + 2)
          else if c = squote then Some (rune_of_byte squote, i + 2)
          else if c = dquote then Some (rune_of_byte dquote, i + 2)
          else Some (rune_of_byte c, i + 2))"

lemma octal_end_bounds:
  "octal_end s lim e = Some e' \<Longrightarrow> e \<le> e' \<and> (e \<le> length s \<longrightarrow> e' \<le> length s)"
proof (induction s lim e rule: octal_end.induct)
  case (1 s lim e)
  show ?case
  proof (cases "e < length s \<and> e < lim")
    case True
    then have b: "byte_at s e = Some (s ! e)" by (simp add: byte_at_def)
    show ?thesis
    proof (cases "is_octal (s ! e)")
      case True
      with \<open>e < length s \<and> e < lim\<close> b "1.prems"
      have "octal_end s lim (e + 1) = Some e'" by (subst (asm) octal_end.simps) simp
      with "1.IH" [OF \<open>e < length s \<and> e < lim\<close> b True] \<open>e < length s \<and> e < lim\<close>
      show ?thesis by simp
    next
      case False
      with \<open>e < length s \<and> e < lim\<close> b "1.prems" show ?thesis
        by (subst (asm) octal_end.simps) simp
    qed
  next
    case False
    with "1.prems" show ?thesis by (subst (asm) octal_end.simps) simp
  qed
qed

lemma octal_end_total: "\<exists>e'. octal_end s lim e = Some e'"
proof (induction s lim e rule: octal_end.induct)
  case (1 s lim e)
  show ?case
  proof (cases "e < length s \<and> e < lim")
    case True
    then have b: "byte_at s e = Some (s ! e)" by (simp add: byte_at_def)
    show ?thesis
    proof (cases "is_octal (s ! e)")
      case True
      from "1.IH" [OF \<open>e < length s \<and> e < lim\<close> b True] \<open>e < length s \<and> e < lim\<close> b True
      show ?thesis by (subst octal_end.simps) simp
    next
      case False
      with \<open>e < length s \<and> e < lim\<close> b show ?thesis by (subst octal_end.simps) simp
    qed
  next
    case False
    then show ?thesis by (subst octal_end.simps) auto
  qed
qed

lemma brace_end_bounds:
  "brace_end s e = Some e' \<Longrightarrow> e \<le> e' \<and> (e \<le> length s \<longrightarrow> e' \<le> length s)"
proof (induction s e rule: brace_end.induct)
  case (1 s e)
  show ?case
  proof (cases "e < length s")
    case True
    then have b: "byte_at s e = Some (s ! e)" by (simp add: byte_at_def)
    show ?thesis
    proof (cases "s ! e \<noteq> CHR ''}''")
      case True
      with \<open>e < length s\<close> b "1.prems"
      have "brace_end s (e + 1) = Some e'" by (subst (asm) brace_end.simps) simp
      with "1.IH" [OF \<open>e < length s\<close> b True] \<open>e < length s\<close> show ?thesis by simp
    next
      case False
      with \<open>e < length s\<close> b "1.prems" show ?thesis by (subst (asm) brace_end.simps) simp
    qed
  next
    case False
    with "1.prems" show ?thesis by (subst (asm) brace_end.simps) simp
  qed
qed

lemma brace_end_total: "\<exists>e'. brace_end s e = Some e'"
proof (induction s e rule: brace_end.induct)
  case (1 s e)
  show ?case
  proof (cases "e < length s")
    case True
    then have b: "byte_at s e = Some (s ! e)" by (simp add: byte_at_def)
    show ?thesis
    proof (cases "s ! e \<noteq> CHR ''}''")
      case True
      from "1.IH" [OF \<open>e < length s\<close> b True] \<open>e < length s\<close> b True
      show ?thesis by (subst brace_end.simps) simp
    next
      case False
      with \<open>e < length s\<close> b show ?thesis by (subst brace_end.simps) simp
    qed
  next
    case False
    then show ?thesis by (subst brace_end.simps) auto
  qed
qed


lemma escape_octal_advance:
  "escape_octal s i start = Some (r, j) \<Longrightarrow> start \<le> j"
  by (auto simp: escape_octal_def split: option.splits dest: octal_end_bounds)

lemma escape_step_advance:
  assumes "escape_step s i = Some (r, j)"
  shows "i < j"
proof -
  have oct1: "escape_octal s i (Suc i) = Some (r, j) \<Longrightarrow> i < j"
    using escape_octal_advance [of s i "Suc i" r j] by simp
  have oct2: "escape_octal s i (Suc (Suc i)) = Some (r, j) \<Longrightarrow> i < j"
    using escape_octal_advance [of s i "Suc (Suc i)" r j] by simp
  have hex: "escape_hex s i = Some (r, j) \<Longrightarrow> i < j"
    by (auto simp: escape_hex_def split: option.splits if_splits)
  have uni: "escape_unicode s i = Some (r, j) \<Longrightarrow> i < j"
    by (auto simp: escape_unicode_def split: option.splits if_splits dest: brace_end_bounds)
  from assms show ?thesis
    unfolding escape_step_def
    by (auto split: option.splits if_splits intro: oct1 oct2 hex uni)
qed

lemma escape_octal_total:
  assumes "i < start" "start \<le> length s"
  shows "\<exists>r j. escape_octal s i start = Some (r, j)"
proof -
  obtain e where e: "octal_end s (i + 4) start = Some e"
    using octal_end_total by blast
  with assms octal_end_bounds [OF e] have "i + 1 \<le> e \<and> e \<le> length s" by simp
  with e show ?thesis by (simp add: escape_octal_def slice_def)
qed

lemma escape_hex_total: "\<exists>r j. escape_hex s i = Some (r, j)"
  by (simp add: escape_hex_def slice_def)

lemma escape_unicode_total: "\<exists>r j. escape_unicode s i = Some (r, j)"
proof (cases "i + 2 < length s \<and> byte_at s (i + 2) = Some (CHR ''{'')")
  case True
  obtain e where e: "brace_end s (i + 3) = Some e"
    using brace_end_total by blast
  with True brace_end_bounds [OF e] have "i + 3 \<le> e \<and> e \<le> length s" by simp
  with True e show ?thesis by (simp add: escape_unicode_def slice_def)
next
  case False
  then show ?thesis by (auto simp: escape_unicode_def slice_def)
qed

lemma escape_step_total:
  assumes "i + 1 < length s"
  shows "\<exists>r j. escape_step s i = Some (r, j)"
proof -
  from assms have b: "byte_at s (i + 1) = Some (s ! (i + 1))" by (simp add: byte_at_def)
  have o1: "\<exists>r j. escape_octal s i (i + 1) = Some (r, j)"
    using assms by (intro escape_octal_total) simp_all
  have o2: "i + 2 < length s \<Longrightarrow> \<exists>r j. escape_octal s i (i + 2) = Some (r, j)"
    by (intro escape_octal_total) simp_all
  show ?thesis
    unfolding escape_step_def b
    using o1 o2 escape_hex_total [of s i] escape_unicode_total [of s i] by simp
qed

text \<open>The main loop of \<^verbatim>\<open>unescapeJSString\<close>, on the index \<^verbatim>\<open>i\<close> and the runes so far.\<close>

function unescape_loop :: "string \<Rightarrow> nat \<Rightarrow> int list \<Rightarrow> int list option" where
  "unescape_loop s i result =
     (if i < length s then
        (case byte_at s i of
           None \<Rightarrow> None
         | Some c \<Rightarrow>
             if c \<noteq> bslash then unescape_loop s (i + 1) (result @ [rune_of_byte c])
             else if i + 1 \<ge> length s then Some (result @ [rune_of_byte bslash])
             else (case escape_step s i of
                     None \<Rightarrow> None
                   | Some (r, j) \<Rightarrow> unescape_loop s j (result @ [r])))
      else Some result)"
  by pat_completeness auto
termination
proof (relation "measure (\<lambda>(s, i, result). length s - i)")
  show "wf (measure (\<lambda>(s, i, result). length s - i))" by simp
next
  fix s :: string and i :: nat and result :: "int list" and c :: char
  assume "i < length s"
  then show "((s, i + 1, result @ [rune_of_byte c]), (s, i, result))
      \<in> measure (\<lambda>(s, i, result). length s - i)" by simp
next
  fix s :: string and i :: nat and result :: "int list" and c :: char
    and x2 :: "int \<times> nat" and r :: int and j :: nat
  assume "i < length s" "escape_step s i = Some x2" "(r, j) = x2"
  then have "i < j" using escape_step_advance [of s i r j] by simp
  with \<open>i < length s\<close>
  show "((s, j, result @ [r]), (s, i, result)) \<in> measure (\<lambda>(s, i, result). length s - i)"
    by simp
qed

declare unescape_loop.simps [simp del]

definition unescapeJSString :: "string \<Rightarrow> string option" where
  "unescapeJSString s = map_option string_of_runes (unescape_loop s 0 [])"

lemma unescape_loop_total: "\<exists>out. unescape_loop s i result = Some out"
proof (induction s i result rule: unescape_loop.induct)
  case (1 s i result)
  show ?case
  proof (cases "i < length s")
    case False
    then show ?thesis by (subst unescape_loop.simps) simp
  next
    case True
    then have b: "byte_at s i = Some (s ! i)" by (simp add: byte_at_def)
    show ?thesis
    proof (cases "s ! i \<noteq> bslash")
      case True
      from "1.IH"(1) [OF \<open>i < length s\<close> b True] \<open>i < length s\<close> b True
      show ?thesis by (subst unescape_loop.simps) simp
    next
      case nb: False
      show ?thesis
      proof (cases "i + 1 \<ge> length s")
        case True
        with \<open>i < length s\<close> b nb show ?thesis by (subst unescape_loop.simps) simp
      next
        case False
        then obtain r j where st: "escape_step s i = Some (r, j)"
          using escape_step_total [of i s] by auto
        from "1.IH"(2) [OF \<open>i < length s\<close> b nb False st refl]
        obtain out where "unescape_loop s j (result @ [r]) = Some out" by blast
        with \<open>i < length s\<close> b nb False st show ?thesis
          by (subst unescape_loop.simps) simp
      qed
    qed
  qed
qed


section \<open>The syntax tree\<close>

text \<open>
  The tree comes from the parser library.  The node kinds that the two visitors tell
  apart are constructors of their own; every other kind is \<open>OtherNode\<close>, with its
  children in the order in which the library's \<^verbatim>\<open>Walk\<close> descends into them.
  \<open>LiteralExpr\<close> carries its token type and its raw source text (a string literal with
  its quotes); the library uses it for strings, numbers, regular expressions,
  \<^verbatim>\<open>true\<close>, \<^verbatim>\<open>false\<close> and \<^verbatim>\<open>null\<close> alike.  The property \<^verbatim>\<open>Y\<close> of a \<^verbatim>\<open>DotExpr\<close>
  is, for the visitor, a \<^verbatim>\<open>*js.Var\<close>, a \<^verbatim>\<open>js.LiteralExpr\<close> or something else.
\<close>

datatype toktype =
  ErrorToken | StringToken | NumericToken | RegExpToken | IdentifierToken
  | TrueToken | FalseToken | NullToken | OtherToken

datatype optoken = EqToken | OtherOpToken string

datatype dotprop = YVar string | YLiteral toktype string | YOther

datatype node =
    Var string
  | LiteralExpr toktype string
  | DotExpr node dotprop
  | IndexExpr node node
  | CallExpr node "node list"
  | BinaryExpr optoken node node
  | ObjectExpr "property list"
  | FuncDecl "node list" "node list"
  | ArrowFunc "node list" "node list"
  | MethodDecl bool propname "node list" "node list"
  | ReturnStmt "node option"
  | ExprStmt node
  | DirectivePrologueStmt string
  | Comment string
  | OtherNode "node list"
and property = Property "propname option" bool node "node option"
and propname = PropertyName toktype string "node option"

text \<open>
  \<open>CallExpr X args\<close>: the callee and the values of \<^verbatim>\<open>Args.List\<close>.
  \<open>FuncDecl body params\<close> and \<open>ArrowFunc body params\<close>: the statements of the body and
  the nodes under the parameters.  \<open>MethodDecl get name body params\<close>: the \<^verbatim>\<open>Get\<close> flag
  and the name.  \<open>Property name spread value init\<close>.  \<open>PropertyName tt data computed\<close>:
  the literal's token type and text, and the computed key.  A program is the statement
  list of its top block.
\<close>

type_synonym ast = "node list"

fun IsSet :: "propname \<Rightarrow> bool" where
  "IsSet (PropertyName tt dat computed) = (computed \<noteq> None \<or> tt \<noteq> ErrorToken)"

subsection \<open>The depth-first walk\<close>

text \<open>
  \<^verbatim>\<open>js.Walk(v, n)\<close> calls \<^verbatim>\<open>v.Enter(n)\<close> and then descends into the children of
  \<open>n\<close>.  Both visitors of this package return themselves from \<^verbatim>\<open>Enter\<close>, so the
  walk always descends, and their \<^verbatim>\<open>Exit\<close> does nothing.  \<open>nodes_of n\<close> is the
  sequence of nodes entered, in order.  The containers that neither visitor looks at
  (blocks, argument lists, properties, property names) are walked through, and so is the
  property of a \<^verbatim>\<open>DotExpr\<close>, a leaf on which neither visitor acts.
\<close>

fun nodes_of :: "node \<Rightarrow> node list"
  and nodes_of_list :: "node list \<Rightarrow> node list"
  and nodes_of_opt :: "node option \<Rightarrow> node list"
  and nodes_of_prop :: "property \<Rightarrow> node list"
  and nodes_of_props :: "property list \<Rightarrow> node list"
  and nodes_of_name :: "propname \<Rightarrow> node list" where
  "nodes_of (Var d) = [Var d]"
| "nodes_of (LiteralExpr tt d) = [LiteralExpr tt d]"
| "nodes_of (DotExpr x y) = DotExpr x y # nodes_of x"
| "nodes_of (IndexExpr x y) = IndexExpr x y # nodes_of x @ nodes_of y"
| "nodes_of (CallExpr x args) = CallExpr x args # nodes_of_list args @ nodes_of x"
| "nodes_of (BinaryExpr op x y) = BinaryExpr op x y # nodes_of x @ nodes_of y"
| "nodes_of (ObjectExpr props) = ObjectExpr props # nodes_of_props props"
| "nodes_of (FuncDecl body params) = FuncDecl body params # nodes_of_list body @ nodes_of_list params"
| "nodes_of (ArrowFunc body params) = ArrowFunc body params # nodes_of_list body @ nodes_of_list params"
| "nodes_of (MethodDecl g nm body params) =
     MethodDecl g nm body params # nodes_of_list body @ nodes_of_list params @ nodes_of_name nm"
| "nodes_of (ReturnStmt v) = ReturnStmt v # nodes_of_opt v"
| "nodes_of (ExprStmt v) = ExprStmt v # nodes_of v"
| "nodes_of (DirectivePrologueStmt d) = [DirectivePrologueStmt d]"
| "nodes_of (Comment d) = [Comment d]"
| "nodes_of (OtherNode kids) = OtherNode kids # nodes_of_list kids"
| "nodes_of_list [] = []"
| "nodes_of_list (n # ns) = nodes_of n @ nodes_of_list ns"
| "nodes_of_opt None = []"
| "nodes_of_opt (Some n) = nodes_of n"
| "nodes_of_prop (Property nm spread v ini) =
     (case nm of None \<Rightarrow> [] | Some pn \<Rightarrow> nodes_of_name pn) @ nodes_of v @ nodes_of_opt ini"
| "nodes_of_props [] = []"
| "nodes_of_props (p # ps) = nodes_of_prop p @ nodes_of_props ps"
| "nodes_of_name (PropertyName tt d computed) = nodes_of_opt computed"

text \<open>
  The walk threads the visitor's state through \<^verbatim>\<open>Enter\<close>; \<open>None\<close> is a panic, which
  ends the walk.
\<close>

fun walk_nodes :: "(node \<Rightarrow> 'st \<Rightarrow> 'st option) \<Rightarrow> node list \<Rightarrow> 'st \<Rightarrow> 'st option" where
  "walk_nodes enter [] st = Some st"
| "walk_nodes enter (n # ns) st =
     (case enter n st of None \<Rightarrow> None | Some st' \<Rightarrow> walk_nodes enter ns st')"

definition Walk :: "(node \<Rightarrow> 'st \<Rightarrow> 'st option) \<Rightarrow> ast \<Rightarrow> 'st \<Rightarrow> 'st option" where
  "Walk enter program st = walk_nodes enter (nodes_of_list program) st"

section \<open>Export analysis\<close>

text \<open>
  A Go \<^verbatim>\<open>map[string]bool\<close> in which only \<^verbatim>\<open>true\<close> is ever stored is modelled by
  the list of its keys, without repetition: \<open>map_set\<close> is \<^verbatim>\<open>m[k] = true\<close>,
  \<open>map_delete\<close> is \<^verbatim>\<open>delete(m, k)\<close>, \<open>map_has\<close> is the lookup \<^verbatim>\<open>m[k]\<close>.
\<close>

type_synonym strmap = "string list"

definition map_set :: "string \<Rightarrow> strmap \<Rightarrow> strmap" where
  "map_set k m = (if k \<in> set m then m else m @ [k])"

definition map_delete :: "string \<Rightarrow> strmap \<Rightarrow> strmap" where
  "map_delete k m = removeAll k m"

definition map_has :: "strmap \<Rightarrow> string \<Rightarrow> bool" where
  "map_has m k = (k \<in> set m)"

record exportVisitor =
  err :: "string option"
  exports :: strmap
  unsafeGetters :: strmap
  hasDefaultExport :: bool

definition add_export :: "string \<Rightarrow> exportVisitor \<Rightarrow> exportVisitor" where
  "add_export name v = v\<lparr>exports := map_set name (exports v)\<rparr>"

definition isExportsIdent :: "node \<Rightarrow> bool" where
  "isExportsIdent e = (case e of Var d \<Rightarrow> d = ''exports'' | _ \<Rightarrow> False)"

definition isModuleIdent :: "node \<Rightarrow> bool" where
  "isModuleIdent e = (case e of Var d \<Rightarrow> d = ''module'' | _ \<Rightarrow> False)"

definition isObjectIdent :: "node \<Rightarrow> bool" where
  "isObjectIdent e = (case e of Var d \<Rightarrow> d = ''Object'' | _ \<Rightarrow> False)"

definition isExportsField :: "dotprop \<Rightarrow> bool" where
  "isExportsField y =
     (case y of YVar d \<Rightarrow> d = ''exports'' | YLiteral tt d \<Rightarrow> d = ''exports'' | YOther \<Rightarrow> False)"

definition isDefinePropertyField :: "dotprop \<Rightarrow> bool" where
  "isDefinePropertyField y =
     (case y of YVar d \<Rightarrow> d = ''defineProperty'' | YLiteral tt d \<Rightarrow> d = ''defineProperty''
      | YOther \<Rightarrow> False)"

definition isModuleExports :: "node \<Rightarrow> bool" where
  "isModuleExports e =
     (case e of DotExpr x y \<Rightarrow> isModuleIdent x \<and> isExportsField y | _ \<Rightarrow> False)"

definition is_quoted :: "string \<Rightarrow> bool" where
  "is_quoted dat =
     (length dat \<ge> 2 \<and>
      ((hd dat = dquote \<and> last dat = dquote) \<or> (hd dat = squote \<and> last dat = squote)))"

text \<open>\<^verbatim>\<open>data[1 : len(data)-1]\<close>, used under \<open>is_quoted\<close> only.\<close>

definition unquote :: "string \<Rightarrow> string" where
  "unquote dat = butlast (tl dat)"

text \<open>The method \<^verbatim>\<open>exportVisitor.extractStringLiteral\<close>; \<open>None\<close> is a panic.\<close>

definition extractStringLiteralV :: "node \<Rightarrow> string option" where
  "extractStringLiteralV e =
     (case e of
        LiteralExpr tt dat \<Rightarrow> if is_quoted dat then unescapeJSString (unquote dat) else Some []
      | _ \<Rightarrow> Some [])"

fun extractPropertyName :: "propname \<Rightarrow> string option" where
  "extractPropertyName (PropertyName tt dat computed) =
     (if \<not> IsSet (PropertyName tt dat computed) then Some []
      else case computed of
             Some c \<Rightarrow> extractStringLiteralV c
           | None \<Rightarrow> if is_quoted dat then unescapeJSString (unquote dat) else Some dat)"

text \<open>
  One iteration of the loop of \<^verbatim>\<open>extractObjectKeys\<close>: the key that the property
  contributes, \<open>[]\<close> when the iteration adds nothing (a spread entry, no name set, or an
  empty key); \<open>None\<close> is a panic.
\<close>

definition object_key :: "property \<Rightarrow> string option" where
  "object_key p =
     (case p of Property nm spread val ini \<Rightarrow>
        if spread then Some []
        else case nm of
               None \<Rightarrow> Some []
             | Some pn \<Rightarrow> if \<not> IsSet pn then Some [] else extractPropertyName pn)"

primrec extractObjectKeys :: "property list \<Rightarrow> exportVisitor \<Rightarrow> exportVisitor option" where
  "extractObjectKeys [] v = Some v"
| "extractObjectKeys (p # ps) v =
     (case object_key p of
        None \<Rightarrow> None
      | Some keyName \<Rightarrow>
          if keyName \<noteq> [] then extractObjectKeys ps (add_export keyName v)
          else extractObjectKeys ps v)"

definition is_member_access :: "node \<Rightarrow> bool" where
  "is_member_access e =
     (case e of DotExpr x y \<Rightarrow> True | IndexExpr x y \<Rightarrow> True | Var d \<Rightarrow> True | _ \<Rightarrow> False)"

definition is_safe_return :: "node \<Rightarrow> bool" where
  "is_safe_return stmt =
     (case stmt of ReturnStmt (Some val) \<Rightarrow> is_member_access val | _ \<Rightarrow> False)"

definition isSafeGetterMethod :: "node list \<Rightarrow> bool" where
  "isSafeGetterMethod body = (if body = [] then False else list_ex is_safe_return body)"

definition isSafeGetter :: "node \<Rightarrow> bool" where
  "isSafeGetter e =
     (case e of
        FuncDecl body params \<Rightarrow> (if body = [] then False else list_ex is_safe_return body)
      | _ \<Rightarrow> False)"

definition mark_unsafe :: "string \<Rightarrow> exportVisitor \<Rightarrow> exportVisitor" where
  "mark_unsafe name v = v\<lparr>unsafeGetters := map_set name (unsafeGetters v)\<rparr>"

text \<open>
  \<^verbatim>\<open>shouldExportDefineProperty\<close>: the loop over the descriptor's properties with the
  three flags \<open>(hasGetter, hasValue, enumerableFalse)\<close>, and the code after the loop.
  One iteration either returns from the function (\<open>Return\<close>: the getter is unsafe, the
  name is marked and the answer is \<^verbatim>\<open>false\<close>) or goes on with new flags
  (\<open>Continue\<close>); \<open>None\<close> is a panic.
\<close>

datatype loop_step = Return | Continue "bool \<times> bool \<times> bool"

definition descriptor_verdict :: "bool \<times> bool \<times> bool \<Rightarrow> string \<Rightarrow> exportVisitor \<Rightarrow> bool \<times> exportVisitor" where
  "descriptor_verdict flags name v =
     (case flags of (hasGetter, hasValue, enumerableFalse) \<Rightarrow>
        if map_has (unsafeGetters v) name then (False, v\<lparr>exports := map_delete name (exports v)\<rparr>)
        else if hasGetter \<and> enumerableFalse then (False, v)
        else (hasValue \<or> hasGetter, v))"

definition descriptor_key :: "string \<Rightarrow> node \<Rightarrow> bool \<times> bool \<times> bool \<Rightarrow> loop_step" where
  "descriptor_key keyName val flags =
     (case flags of (hasGetter, hasValue, enumerableFalse) \<Rightarrow>
        if keyName = ''get'' then
          (if \<not> isSafeGetter val then Return else Continue (True, hasValue, enumerableFalse))
        else if keyName = ''value'' then Continue (hasGetter, True, enumerableFalse)
        else if keyName = ''enumerable'' then
          (case val of
             LiteralExpr tt dat \<Rightarrow>
               if dat = ''false'' then Continue (hasGetter, hasValue, True) else Continue flags
           | _ \<Rightarrow> Continue flags)
        else Continue flags)"

definition descriptor_method :: "bool \<Rightarrow> propname \<Rightarrow> node list \<Rightarrow> bool \<times> bool \<times> bool \<Rightarrow> loop_step" where
  "descriptor_method g mname body flags =
     (case flags of (hasGetter, hasValue, enumerableFalse) \<Rightarrow>
        case mname of PropertyName tt methodName computed \<Rightarrow>
          if methodName = ''get'' \<or> g then
            (if \<not> isSafeGetterMethod body then Return else Continue (True, hasValue, enumerableFalse))
          else Continue flags)"

definition descriptor_step :: "property \<Rightarrow> bool \<times> bool \<times> bool \<Rightarrow> loop_step option" where
  "descriptor_step p flags =
     (case p of Property nm spread val ini \<Rightarrow>
        case val of
          MethodDecl g mname body params \<Rightarrow> Some (descriptor_method g mname body flags)
        | _ \<Rightarrow>
            (case nm of
               None \<Rightarrow> Some (Continue flags)
             | Some pn \<Rightarrow>
                 if \<not> IsSet pn then Some (Continue flags)
                 else case extractPropertyName pn of
                        None \<Rightarrow> None
                      | Some keyName \<Rightarrow> Some (descriptor_key keyName val flags)))"

primrec descriptor_loop ::
  "property list \<Rightarrow> bool \<times> bool \<times> bool \<Rightarrow> string \<Rightarrow> exportVisitor \<Rightarrow> (bool \<times> exportVisitor) option" where
  "descriptor_loop [] flags name v = Some (descriptor_verdict flags name v)"
| "descriptor_loop (p # ps) flags name v =
     (case descriptor_step p flags of
        None \<Rightarrow> None
      | Some Return \<Rightarrow> Some (False, mark_unsafe name v)
      | Some (Continue flags') \<Rightarrow> descriptor_loop ps flags' name v)"

definition shouldExportDefineProperty ::
  "property list \<Rightarrow> string \<Rightarrow> exportVisitor \<Rightarrow> (bool \<times> exportVisitor) option" where
  "shouldExportDefineProperty props name v = descriptor_loop props (False, False, False) name v"

definition assign_default :: "node \<Rightarrow> exportVisitor \<Rightarrow> exportVisitor option" where
  "assign_default right v =
     (case right of
        ObjectExpr props \<Rightarrow> extractObjectKeys props (v\<lparr>hasDefaultExport := True\<rparr>)
      | _ \<Rightarrow> Some (v\<lparr>hasDefaultExport := True\<rparr>))"

definition assign_field :: "dotprop \<Rightarrow> exportVisitor \<Rightarrow> exportVisitor" where
  "assign_field y v =
     (case y of YVar d \<Rightarrow> add_export d v | YLiteral tt d \<Rightarrow> add_export d v | YOther \<Rightarrow> v)"

definition handleAssignment :: "node \<Rightarrow> node \<Rightarrow> exportVisitor \<Rightarrow> exportVisitor option" where
  "handleAssignment left right v =
     (case left of
        DotExpr x y \<Rightarrow>
          if isExportsIdent x then Some (assign_field y v)
          else if isModuleExports x then Some (assign_field y v)
          else if isModuleIdent x \<and> isExportsField y then assign_default right v
          else Some v
      | IndexExpr x y \<Rightarrow>
          if isExportsIdent x \<or> isModuleExports x then
            (case extractStringLiteralV y of
               None \<Rightarrow> None
             | Some name \<Rightarrow> if name \<noteq> [] then Some (add_export name v) else Some v)
          else Some v
      | _ \<Rightarrow> if isModuleExports left then assign_default right v else Some v)"

definition handleCallExpr :: "node \<Rightarrow> node list \<Rightarrow> exportVisitor \<Rightarrow> exportVisitor option" where
  "handleCallExpr callee args v =
     (case callee of
        DotExpr x y \<Rightarrow>
          if isObjectIdent x \<and> isDefinePropertyField y then
            (case args of
               a0 # a1 # a2 # others \<Rightarrow>
                 if isExportsIdent a0 \<or> isModuleExports a0 then
                   (case extractStringLiteralV a1 of
                      None \<Rightarrow> None
                    | Some name \<Rightarrow>
                        if name \<noteq> [] then
                          (case a2 of
                             ObjectExpr props \<Rightarrow>
                               (case shouldExportDefineProperty props name v of
                                  None \<Rightarrow> None
                                | Some (ok, v') \<Rightarrow> if ok then Some (add_export name v') else Some v')
                           | _ \<Rightarrow> Some v)
                        else Some v)
                 else Some v
             | _ \<Rightarrow> Some v)
          else Some v
      | _ \<Rightarrow> Some v)"

definition exportEnter :: "node \<Rightarrow> exportVisitor \<Rightarrow> exportVisitor option" where
  "exportEnter n v =
     (case n of
        BinaryExpr op x y \<Rightarrow> if op = EqToken then handleAssignment x y v else Some v
      | CallExpr x args \<Rightarrow> handleCallExpr x args v
      | _ \<Rightarrow> Some v)"

section \<open>The shebang line\<close>

text \<open>
  \<^verbatim>\<open>bytes.Split(code, "\n")\<close>, \<^verbatim>\<open>strings.Split(path, "/")\<close> and
  \<^verbatim>\<open>bytes.Join(lines, "\n")\<close>.
\<close>

fun Split :: "char \<Rightarrow> string \<Rightarrow> string list" where
  "Split sep [] = [[]]"
| "Split sep (c # cs) =
     (if c = sep then [] # Split sep cs
      else case Split sep cs of [] \<Rightarrow> [[c]] | l # ls \<Rightarrow> (c # l) # ls)"

fun join_lines :: "string list \<Rightarrow> string" where
  "join_lines [] = []"
| "join_lines [l] = l"
| "join_lines (l # ls) = l @ [newline] @ join_lines ls"

text \<open>
  \<^verbatim>\<open>bytes.TrimSpace\<close> cuts the white-space characters of Unicode from both ends.
\<close>

definition TrimSpace :: "string \<Rightarrow> string" where
  "TrimSpace s = rev (strip_front (map rev space_runes) (rev (strip_front space_runes s)))"

text \<open>
  \<^verbatim>\<open>extractShebang\<close>: the loop over the lines skips blank ones and stops at the first
  other line, which is the shebang line or not.
\<close>

fun shebang_scan :: "string list \<Rightarrow> (string \<times> string) option" where
  "shebang_scan [] = None"
| "shebang_scan (line # rest) =
     (let trimmed = TrimSpace line in
      if length trimmed = 0 then shebang_scan rest
      else if length trimmed \<ge> 2 \<and> trimmed ! 0 = CHR ''#'' \<and> trimmed ! 1 = CHR ''!'' then
        Some (line @ [newline], join_lines rest)
      else None)"

definition extractShebang :: "string \<Rightarrow> string \<times> string" where
  "extractShebang code =
     (case shebang_scan (Split newline code) of None \<Rightarrow> ([], code) | Some r \<Rightarrow> r)"

section \<open>The entry point of the export analysis\<close>

datatype error = ParseError | VisitorError string | Panic

text \<open>
  The parser is the library's: it is a parameter \<open>parse\<close>, \<open>None\<close> when it reports an
  error.  The two maps are walked in an order that Go leaves open; the keys are sorted
  afterwards, so the model walks them in list order.
\<close>

definition purge_unsafe :: "exportVisitor \<Rightarrow> strmap" where
  "purge_unsafe v = fold map_delete (unsafeGetters v) (exports v)"

definition new_exportVisitor :: exportVisitor where
  "new_exportVisitor = \<lparr>err = None, exports = [], unsafeGetters = [], hasDefaultExport = False\<rparr>"

definition finish_exports :: "exportVisitor \<Rightarrow> string list" where
  "finish_exports v =
     sort (if hasDefaultExport v then purge_unsafe v @ [''default''] else purge_unsafe v)"

definition ParseExports :: "(string \<Rightarrow> ast option) \<Rightarrow> string \<Rightarrow> string \<Rightarrow> error + string list" where
  "ParseExports parse path code =
     (case parse (snd (extractShebang code)) of
        None \<Rightarrow> Inl ParseError
      | Some program \<Rightarrow>
          (case Walk exportEnter program new_exportVisitor of
             None \<Rightarrow> Inl Panic
           | Some v \<Rightarrow>
               (case err v of
                  Some e \<Rightarrow> Inl (VisitorError e)
                | None \<Rightarrow> Inr (finish_exports v))))"

section \<open>Rewriting the requires\<close>

subsection \<open>Finding the calls\<close>

definition HasPrefix :: "string \<Rightarrow> string \<Rightarrow> bool" where
  "HasPrefix s p = (take (length p) s = p)"

text \<open>The package function \<^verbatim>\<open>extractStringLiteral\<close> of the rewriter: quotes off, nothing decoded.\<close>

definition extractStringLiteral :: "string \<Rightarrow> string" where
  "extractStringLiteral dat = (if is_quoted dat then unquote dat else dat)"

record requireCall =
  funcName :: string
  path :: string

record requireVisitor =
  prefix :: string
  requires :: strmap
  requireCalls :: "requireCall list"
  pathOrder :: "string list"

definition getFunctionName :: "node \<Rightarrow> string" where
  "getFunctionName callee = (case callee of Var d \<Rightarrow> d | _ \<Rightarrow> [])"

definition record_call :: "node \<Rightarrow> string \<Rightarrow> requireVisitor \<Rightarrow> requireVisitor" where
  "record_call callee pathStr v =
     (let v1 = (if \<not> map_has (requires v) pathStr then v\<lparr>pathOrder := pathOrder v @ [pathStr]\<rparr> else v);
          v2 = v1\<lparr>requires := map_set pathStr (requires v1)\<rparr>;
          name = getFunctionName callee
      in if name \<noteq> [] then
           v2\<lparr>requireCalls := requireCalls v2 @ [\<lparr>funcName = name, path = pathStr\<rparr>]\<rparr>
         else v2)"

definition requireEnter :: "node \<Rightarrow> requireVisitor \<Rightarrow> requireVisitor" where
  "requireEnter n v =
     (case n of
        CallExpr x args \<Rightarrow>
          (case args of
             [a] \<Rightarrow>
               (case a of
                  LiteralExpr tt dat \<Rightarrow>
                    if HasPrefix (extractStringLiteral dat) (prefix v)
                    then record_call x (extractStringLiteral dat) v
                    else v
                | _ \<Rightarrow> v)
           | _ \<Rightarrow> v)
      | _ \<Rightarrow> v)"

definition new_requireVisitor :: "string \<Rightarrow> requireVisitor" where
  "new_requireVisitor pre = \<lparr>prefix = pre, requires = [], requireCalls = [], pathOrder = []\<rparr>"

subsection \<open>The generated names and scaffolding\<close>

text \<open>
  The width in bytes of the first character of a string as the regular-expression
  library reads it: a well-formed UTF-8 sequence, or one byte.
\<close>

definition is_cont :: "char \<Rightarrow> bool" where
  "is_cont c = (128 \<le> (of_char c :: nat) \<and> (of_char c :: nat) \<le> 191)"

definition rune_width :: "string \<Rightarrow> nat" where
  "rune_width s =
     (case s of
        [] \<Rightarrow> 0
      | b0 # r \<Rightarrow>
          (let n0 = (of_char b0 :: nat) in
           if 194 \<le> n0 \<and> n0 \<le> 223 then
             (case r of b1 # r1 \<Rightarrow> if is_cont b1 then 2 else 1 | _ \<Rightarrow> 1)
           else if 224 \<le> n0 \<and> n0 \<le> 239 then
             (case r of
                b1 # b2 # r2 \<Rightarrow>
                  (let n1 = (of_char b1 :: nat) in
                   if (if n0 = 224 then 160 else 128) \<le> n1 \<and> n1 \<le> (if n0 = 237 then 159 else 191)
                      \<and> is_cont b2
                   then 3 else 1)
              | _ \<Rightarrow> 1)
           else if 240 \<le> n0 \<and> n0 \<le> 244 then
             (case r of
                b1 # b2 # b3 # r3 \<Rightarrow>
                  (let n1 = (of_char b1 :: nat) in
                   if (if n0 = 240 then 144 else 128) \<le> n1 \<and> n1 \<le> (if n0 = 244 then 143 else 191)
                      \<and> is_cont b2 \<and> is_cont b3
                   then 4 else 1)
              | _ \<Rightarrow> 1)
           else 1))"

definition is_word_char :: "char \<Rightarrow> bool" where
  "is_word_char c =
     ((CHR ''a'' \<le> c \<and> c \<le> CHR ''z'') \<or> (CHR ''A'' \<le> c \<and> c \<le> CHR ''Z'')
      \<or> (CHR ''0'' \<le> c \<and> c \<le> CHR ''9'') \<or> c = CHR ''_'')"

text \<open>\<^verbatim>\<open>regexp.MustCompile(`[^a-zA-Z0-9_]`).ReplaceAllString(lastName, "_")\<close>.\<close>

function sanitize :: "string \<Rightarrow> string" where
  "sanitize [] = []"
| "sanitize (c # cs) =
     (if is_word_char c then c # sanitize cs
      else CHR ''_'' # sanitize (drop (rune_width (c # cs) - 1) cs))"
  by pat_completeness auto
termination
  by (relation "measure length") auto

definition last_segment :: "string list \<Rightarrow> string" where
  "last_segment segments =
     (case find (\<lambda>seg. seg \<noteq> []) (rev segments) of None \<Rightarrow> [] | Some seg \<Rightarrow> seg)"

definition pathToImportName :: "string \<Rightarrow> string" where
  "pathToImportName p =
     (let lastName = last_segment (Split (CHR ''/'') p);
          lastName = (if lastName = [] then ''module'' else lastName);
          lastName = sanitize lastName;
          lastName = (if length lastName > 0 \<and> CHR ''0'' \<le> hd lastName \<and> hd lastName \<le> CHR ''9''
                      then ''_'' @ lastName else lastName)
      in ''__cjs_import_'' @ lastName @ ''__'')"

lemma rune_width_bounds: "s \<noteq> [] \<Longrightarrow> 1 \<le> rune_width s \<and> rune_width s \<le> length s"
  by (cases s) (auto simp: rune_width_def Let_def split: list.splits)

text \<open>
  A string is valid UTF-8 when no byte of it decodes to the error rune with width one:
  an ASCII byte, or the lead byte of a well-formed sequence.
\<close>

function valid_utf8 :: "string \<Rightarrow> bool" where
  "valid_utf8 [] = True"
| "valid_utf8 (c # cs) =
     (if (of_char c :: nat) < 128 then valid_utf8 cs
      else if rune_width (c # cs) > 1 then valid_utf8 (drop (rune_width (c # cs) - 1) cs)
      else False)"
  by pat_completeness auto
termination
  by (relation "measure length") auto

text \<open>
  The code point of the first character of a string, for a well-formed sequence of two
  to four bytes.
\<close>

definition rune_value :: "string \<Rightarrow> int" where
  "rune_value s =
     (let b = (\<lambda>k. int (of_char (s ! k) :: nat)) in
      if rune_width s = 2 then (b 0 - 192) * 64 + (b 1 - 128)
      else if rune_width s = 3 then (b 0 - 224) * 4096 + (b 1 - 128) * 64 + (b 2 - 128)
      else (b 0 - 240) * 262144 + (b 1 - 128) * 4096 + (b 2 - 128) * 64 + (b 3 - 128))"

text \<open>
  The verb \<^verbatim>\<open>%q\<close> of \<^verbatim>\<open>fmt\<close>, that is \<^verbatim>\<open>strconv.Quote\<close>.  A byte that is no
  character is written \<^verbatim>\<open>\xHH\<close>; a character above ASCII is copied when the library's
  table says that it is printable, and written \<^verbatim>\<open>\uHHHH\<close> or \<^verbatim>\<open>\UHHHHHHHH\<close>
  otherwise.  The table is the library's: it is the parameter \<open>is_print\<close>.
\<close>

definition hex_digit :: "nat \<Rightarrow> char" where
  "hex_digit n = (if n < 10 then char_of (48 + n) else char_of (87 + n))"

definition quote_byte :: "char \<Rightarrow> string" where
  "quote_byte c =
     (let n = (of_char c :: nat) in
      if c = dquote then [bslash, dquote]
      else if c = bslash then [bslash, bslash]
      else if 32 \<le> n \<and> n < 127 then [c]
      else if n = 7 then [bslash, CHR ''a'']
      else if n = 8 then [bslash, CHR ''b'']
      else if n = 12 then [bslash, CHR ''f'']
      else if n = 10 then [bslash, CHR ''n'']
      else if n = 13 then [bslash, CHR ''r'']
      else if n = 9 then [bslash, CHR ''t'']
      else if n = 11 then [bslash, CHR ''v'']
      else [bslash, CHR ''x'', hex_digit (n div 16), hex_digit (n mod 16)])"

definition hex_digits :: "nat \<Rightarrow> nat \<Rightarrow> string" where
  "hex_digits k n = map (\<lambda>i. hex_digit ((n div 16 ^ i) mod 16)) (rev [0..<k])"

definition quote_rune :: "(int \<Rightarrow> bool) \<Rightarrow> string \<Rightarrow> string" where
  "quote_rune is_print s =
     (if is_print (rune_value s) then take (rune_width s) s
      else if rune_value s < 65536 then [bslash, CHR ''u''] @ hex_digits 4 (nat (rune_value s))
      else [bslash, CHR ''U''] @ hex_digits 8 (nat (rune_value s)))"

function quote_chars :: "(int \<Rightarrow> bool) \<Rightarrow> string \<Rightarrow> string" where
  "quote_chars is_print [] = []"
| "quote_chars is_print (c # cs) =
     (if (of_char c :: nat) < 128 \<or> rune_width (c # cs) = 1
      then quote_byte c @ quote_chars is_print cs
      else quote_rune is_print (c # cs) @ quote_chars is_print (drop (rune_width (c # cs) - 1) cs))"
  by pat_completeness auto
termination
  by (relation "measure (\<lambda>(is_print, s). length s)") auto

definition Quote :: "(int \<Rightarrow> bool) \<Rightarrow> string \<Rightarrow> string" where
  "Quote is_print s = [dquote] @ quote_chars is_print s @ [dquote]"

definition import_line :: "(int \<Rightarrow> bool) \<Rightarrow> string \<Rightarrow> string" where
  "import_line is_print reqPath =
     ''import '' @ pathToImportName reqPath @ '' from '' @ Quote is_print reqPath @ [newline]"

definition mapping_entry :: "(int \<Rightarrow> bool) \<Rightarrow> string \<Rightarrow> string" where
  "mapping_entry is_print reqPath = Quote is_print reqPath @ '': '' @ pathToImportName reqPath"

fun objMapping :: "(int \<Rightarrow> bool) \<Rightarrow> string list \<Rightarrow> string" where
  "objMapping is_print [] = []"
| "objMapping is_print [p] = mapping_entry is_print p"
| "objMapping is_print (p # ps) =
     mapping_entry is_print p @ '','' @ [newline, tab] @ objMapping is_print ps"

definition infrastructure :: "(int \<Rightarrow> bool) \<Rightarrow> string list \<Rightarrow> string" where
  "infrastructure is_print paths =
     concat (map (import_line is_print) paths)
     @ ''const __cjs_imports__ = {'' @ [newline, tab]
     @ objMapping is_print paths @ '','' @ [newline]
     @ ''}'' @ [newline]
     @ ''function __cjs_require__(path) {'' @ [newline, tab]
     @ ''const req = __cjs_imports__[path]'' @ [newline, tab]
     @ ''if (!req) {'' @ [newline, tab, tab]
     @ ''throw new Error('' @ [dquote] @ ''Module not found: '' @ [dquote] @ '' + path)'' @ [newline, tab]
     @ ''}'' @ [newline, tab]
     @ ''return req'' @ [newline]
     @ ''}'' @ [newline]"

subsection \<open>Substituting the call sites\<close>

text \<open>
  The pattern is \<^verbatim>\<open>QuoteMeta(funcName) + `\s*\(\s*(["\'])` + QuoteMeta(prefix)\<close>.
  \<^verbatim>\<open>regexp.MustCompile\<close> panics on a pattern that does not compile; this one, whose
  special characters are all escaped, fails to compile when it is not valid UTF-8 and
  when the library finds it too large (it sets a limit of some millions of characters).
  That size check is the library's: it is the parameter \<open>too_large\<close>.
\<close>

definition is_regex_special :: "char \<Rightarrow> bool" where
  "is_regex_special c = (c \<in> set (bslash # ''.+*?()|[]{}^$''))"

definition QuoteMeta :: "string \<Rightarrow> string" where
  "QuoteMeta s = concat (map (\<lambda>c. if is_regex_special c then [bslash, c] else [c]) s)"

definition call_pattern :: "string \<Rightarrow> string \<Rightarrow> string" where
  "call_pattern name pre =
     QuoteMeta name @ [bslash] @ ''s*'' @ [bslash] @ ''('' @ [bslash] @ ''s*(['' @ [dquote, bslash, squote]
     @ ''])'' @ QuoteMeta pre"

definition compiles :: "(string \<Rightarrow> bool) \<Rightarrow> string \<Rightarrow> bool" where
  "compiles too_large pattern = (valid_utf8 pattern \<and> \<not> too_large pattern)"

text \<open>
  The library matches character by character.  A literal of the pattern matches the
  same character of the text; the replacement character U+FFFD, which is also what a
  byte of the text that is no character decodes to, matches such a byte as well.
  \<open>match_literal lit s\<close> gives the text after the literal.
\<close>

definition is_bad_byte :: "string \<Rightarrow> bool" where
  "is_bad_byte s = (s \<noteq> [] \<and> 128 \<le> (of_char (hd s) :: nat) \<and> rune_width s = 1)"

function match_literal :: "string \<Rightarrow> string \<Rightarrow> string option" where
  "match_literal [] s = Some s"
| "match_literal (c # cs) s =
     (if take (rune_width (c # cs)) s = take (rune_width (c # cs)) (c # cs) then
        match_literal (drop (rune_width (c # cs) - 1) cs) (drop (rune_width (c # cs)) s)
      else if take (rune_width (c # cs)) (c # cs) = [CHR 0xEF, CHR 0xBF, CHR 0xBD] \<and> is_bad_byte s then
        match_literal (drop (rune_width (c # cs) - 1) cs) (tl s)
      else None)"
  by pat_completeness auto
termination
  by (relation "measure (\<lambda>(lit, s). length lit)") auto

declare match_literal.simps [simp del]

text \<open>
  The pattern has no alternative but the quote, and each \<^verbatim>\<open>\s*\<close> is followed by a
  character that is no white space, so it matches at a position in at most one way:
  \<open>match_call\<close> gives the quote and the text after the match.
\<close>

definition is_regex_space :: "char \<Rightarrow> bool" where
  "is_regex_space c = (c = tab \<or> c = newline \<or> c = CHR 0x0C \<or> c = cr \<or> c = CHR '' '')"

definition match_call :: "string \<Rightarrow> string \<Rightarrow> string \<Rightarrow> (char \<times> string) option" where
  "match_call name pre s =
     (case match_literal name s of
        None \<Rightarrow> None
      | Some s1 \<Rightarrow>
          (case dropWhile is_regex_space s1 of
             [] \<Rightarrow> None
           | c # r \<Rightarrow>
               if c = CHR ''('' then
                 (case dropWhile is_regex_space r of
                    [] \<Rightarrow> None
                  | q # r' \<Rightarrow>
                      if q = dquote \<or> q = squote then
                        (case match_literal pre r' of
                           None \<Rightarrow> None
                         | Some rest \<Rightarrow> Some (q, rest))
                      else None)
               else None))"

lemma match_literal_shorter: "match_literal lit s = Some rest \<Longrightarrow> length rest \<le> length s"
proof (induction lit s rule: match_literal.induct)
  case (1 s)
  then show ?case by (simp add: match_literal.simps)
next
  case (2 c cs s)
  let ?w = "rune_width (c # cs)"
  show ?case
  proof (cases "take ?w s = take ?w (c # cs)")
    case True
    with "2.prems" have "match_literal (drop (?w - 1) cs) (drop ?w s) = Some rest"
      by (simp add: match_literal.simps)
    from "2.IH"(1) [OF True this] show ?thesis by simp
  next
    case False
    show ?thesis
    proof (cases "take ?w (c # cs) = [CHR 0xEF, CHR 0xBF, CHR 0xBD] \<and> is_bad_byte s")
      case True
      with False "2.prems" have "match_literal (drop (?w - 1) cs) (tl s) = Some rest"
        by (simp add: match_literal.simps)
      from "2.IH"(2) [OF False True this] show ?thesis by simp
    next
      case no: False
      with False "2.prems" show ?thesis by (simp add: match_literal.simps)
    qed
  qed
qed

lemma match_call_shorter:
  assumes "match_call name pre s = Some (q, rest)"
  shows "length rest < length s"
proof -
  from assms obtain s1 r r' where
    s1: "match_literal name s = Some s1"
    and r: "dropWhile is_regex_space s1 = CHR ''('' # r"
    and r': "dropWhile is_regex_space r = q # r'"
    and rest: "match_literal pre r' = Some rest"
    by (auto simp: match_call_def split: option.splits if_splits list.splits)
  have 0: "length s1 \<le> length s" using match_literal_shorter [OF s1] .
  have "length (CHR ''('' # r) \<le> length s1"
    using length_dropWhile_le [of is_regex_space s1] r by simp
  then have 1: "length r < length s1" by simp
  have "length (q # r') \<le> length r"
    using length_dropWhile_le [of is_regex_space r] r' by simp
  then have 2: "length r' < length r" by simp
  have 3: "length rest \<le> length r'" using match_literal_shorter [OF rest] .
  from 0 1 2 3 show ?thesis by simp
qed

text \<open>
  \<^verbatim>\<open>re.ReplaceAllStringFunc\<close>: the matches are taken from left to right, each search
  starting where the last match ended and going on character by character; the callback
  gives \<^verbatim>\<open>"__cjs_require__(" + quote + prefix\<close>.
\<close>

function replace_calls :: "string \<Rightarrow> string \<Rightarrow> string \<Rightarrow> string" where
  "replace_calls name pre [] = []"
| "replace_calls name pre (c # cs) =
     (case match_call name pre (c # cs) of
        Some (q, rest) \<Rightarrow> ''__cjs_require__('' @ [q] @ pre @ replace_calls name pre rest
      | None \<Rightarrow>
          take (rune_width (c # cs)) (c # cs)
          @ replace_calls name pre (drop (rune_width (c # cs) - 1) cs))"
  by pat_completeness auto
termination
proof (relation "measure (\<lambda>(name, pre, s). length s)")
  show "wf (measure (\<lambda>(name, pre, s). length s))" by simp
next
  fix name pre :: string and c :: char and cs :: string and x2 :: "char \<times> string"
    and q :: char and rest :: string
  assume "match_call name pre (c # cs) = Some x2" "(q, rest) = x2"
  then have "length rest < length (c # cs)" using match_call_shorter [of name pre "c # cs" q rest] by simp
  then show "((name, pre, rest), (name, pre, c # cs)) \<in> measure (\<lambda>(name, pre, s). length s)"
    by simp
next
  fix name pre :: string and c :: char and cs :: string
  show "((name, pre, drop (rune_width (c # cs) - 1) cs), (name, pre, c # cs))
      \<in> measure (\<lambda>(name, pre, s). length s)"
    by simp
qed

declare replace_calls.simps [simp del]

text \<open>
  \<^verbatim>\<open>replaceRequireCalls\<close> groups the calls by function name in a map and, for each
  key, compiles the pattern and makes one pass over the text.  Go leaves the order of
  the keys of a map open: \<open>order\<close> stands for it, applied to the names in the order of
  their first call.  \<open>None\<close> is the panic of \<^verbatim>\<open>regexp.MustCompile\<close>.
\<close>

definition funcNames :: "requireCall list \<Rightarrow> string list" where
  "funcNames calls = remdups (map funcName calls)"

fun replace_passes ::
  "(string \<Rightarrow> bool) \<Rightarrow> string list \<Rightarrow> string \<Rightarrow> string \<Rightarrow> string option" where
  "replace_passes too_large [] pre result = Some result"
| "replace_passes too_large (name # names) pre result =
     (if compiles too_large (call_pattern name pre)
      then replace_passes too_large names pre (replace_calls name pre result)
      else None)"

definition replaceRequireCalls ::
  "(string list \<Rightarrow> string list) \<Rightarrow> (string \<Rightarrow> bool) \<Rightarrow> string \<Rightarrow> requireCall list \<Rightarrow> string
     \<Rightarrow> string option" where
  "replaceRequireCalls order too_large source calls pre =
     replace_passes too_large (order (funcNames calls)) pre source"

subsection \<open>The directive prologue\<close>

fun directiveCount :: "node list \<Rightarrow> nat" where
  "directiveCount [] = 0"
| "directiveCount (DirectivePrologueStmt d # stmts) = Suc (directiveCount stmts)"
| "directiveCount (Comment d # stmts) = directiveCount stmts"
| "directiveCount (stmt # stmts) = 0"

definition is_ws :: "char \<Rightarrow> bool" where
  "is_ws c = (c = CHR '' '' \<or> c = tab \<or> c = newline \<or> c = cr)"

definition is_space_or_tab :: "char \<Rightarrow> bool" where
  "is_space_or_tab c = (c = CHR '' '' \<or> c = tab)"

text \<open>\<^verbatim>\<open>for pos < len(source) && p(source[pos]) { pos++ }\<close>\<close>

function skip_while :: "(char \<Rightarrow> bool) \<Rightarrow> string \<Rightarrow> nat \<Rightarrow> nat" where
  "skip_while p source pos =
     (if pos < length source \<and> p (source ! pos) then skip_while p source (pos + 1) else pos)"
  by pat_completeness auto
termination
  by (relation "measure (\<lambda>(p, source, pos). length source - pos)") auto

declare skip_while.simps [simp del]

text \<open>
  \<^verbatim>\<open>for pos < len(source) && source[pos] != quote { if source[pos] == '\\' { pos++ }; pos++ }\<close>
\<close>

function find_closing :: "char \<Rightarrow> string \<Rightarrow> nat \<Rightarrow> nat" where
  "find_closing quote source pos =
     (if pos < length source \<and> source ! pos \<noteq> quote then
        find_closing quote source (if source ! pos = bslash then pos + 2 else pos + 1)
      else pos)"
  by pat_completeness auto
termination
  by (relation "measure (\<lambda>(quote, source, pos). length source - pos)") auto

declare find_closing.simps [simp del]

text \<open>
  The scanning loop of \<^verbatim>\<open>extractDirectivesString\<close> on \<open>(pos, foundDirectives,
  directives)\<close>.  \<open>scan_directive\<close> is the branch taken at a quote: the position after
  it, and the directive text when a semicolon follows.
\<close>

definition scan_directive :: "string \<Rightarrow> nat \<Rightarrow> nat \<times> string option" where
  "scan_directive source start =
     (let pos = find_closing (source ! start) source (start + 1) + 1;
          pos = skip_while is_space_or_tab source pos
      in if pos < length source \<and> source ! pos = CHR '';'' then
           (pos + 1, Some (take (pos + 1 - start) (drop start source) @ [newline]))
         else (pos, None))"

lemma skip_while_ge: "pos \<le> skip_while p source pos"
proof (induction p source pos rule: skip_while.induct)
  case (1 p source pos)
  show ?case
  proof (cases "pos < length source \<and> p (source ! pos)")
    case True
    with "1.IH" show ?thesis by (subst skip_while.simps) simp
  next
    case False
    then show ?thesis by (subst skip_while.simps) auto
  qed
qed

lemma find_closing_ge: "pos \<le> find_closing quote source pos"
proof (induction quote source pos rule: find_closing.induct)
  case (1 quote source pos)
  show ?case
  proof (cases "pos < length source \<and> source ! pos \<noteq> quote")
    case True
    with "1.IH" show ?thesis by (subst find_closing.simps) (auto split: if_splits)
  next
    case False
    then show ?thesis by (subst find_closing.simps) auto
  qed
qed

lemma scan_directive_advance: "start < fst (scan_directive source start)"
proof -
  have 1: "start + 1 \<le> find_closing (source ! start) source (start + 1)"
    by (rule find_closing_ge)
  have 2: "find_closing (source ! start) source (start + 1) + 1
      \<le> skip_while is_space_or_tab source (find_closing (source ! start) source (start + 1) + 1)"
    by (rule skip_while_ge)
  from 1 2 show ?thesis by (simp add: scan_directive_def Let_def)
qed

lemma scan_directive_decreases:
  assumes "(pos', y) = scan_directive source (skip_while is_ws source pos)" "pos < length source"
  shows "length source - pos' < length source - pos"
proof -
  have "pos \<le> skip_while is_ws source pos" by (rule skip_while_ge)
  moreover have "skip_while is_ws source pos < pos'"
    using scan_directive_advance [of "skip_while is_ws source pos" source] assms(1)
    by (metis fst_conv)
  ultimately show ?thesis using assms(2) by arith
qed

function directive_loop :: "string \<Rightarrow> nat \<Rightarrow> nat \<Rightarrow> nat \<Rightarrow> string \<Rightarrow> nat \<times> string" where
  "directive_loop source dcount pos found directives =
     (if found < dcount \<and> pos < length source then
        (let start = skip_while is_ws source pos in
         if start \<ge> length source then (start, directives)
         else if source ! start = dquote \<or> source ! start = squote then
           (case scan_directive source start of
              (pos', Some dtext) \<Rightarrow> directive_loop source dcount pos' (found + 1) (directives @ dtext)
            | (pos', None) \<Rightarrow> directive_loop source dcount pos' found directives)
         else (start, directives))
      else (pos, directives))"
  by pat_completeness auto
termination
  by (relation "measure (\<lambda>(source, dcount, pos, found, directives). length source - pos)")
    (auto intro: scan_directive_decreases)

declare directive_loop.simps [simp del]

text \<open>
  \<^verbatim>\<open>extractDirectivesString\<close>; the last slice \<^verbatim>\<open>source[pos:]\<close> panics when the scan has
  gone past the end of the text (\<open>None\<close>).
\<close>

definition extractDirectivesString :: "ast \<Rightarrow> string \<Rightarrow> (string \<times> string) option" where
  "extractDirectivesString program source =
     (if directiveCount program = 0 then Some ([], source)
      else case directive_loop source (directiveCount program) 0 0 [] of
             (pos, directives) \<Rightarrow>
               (case slice_from source (skip_while is_ws source pos) of
                  None \<Rightarrow> None
                | Some body \<Rightarrow> Some (directives, body)))"

subsection \<open>The entry point of the rewriter\<close>

definition RewriteRequires ::
  "(string \<Rightarrow> ast option) \<Rightarrow> (string list \<Rightarrow> string list) \<Rightarrow> (int \<Rightarrow> bool)
     \<Rightarrow> (string \<Rightarrow> bool) \<Rightarrow> string \<Rightarrow> string \<Rightarrow> string \<Rightarrow> error + string" where
  "RewriteRequires parse order is_print too_large filepath pre source =
     (case extractShebang source of
        (shebang, codeWithoutShebang) \<Rightarrow>
          (case parse codeWithoutShebang of
             None \<Rightarrow> Inl ParseError
           | Some program \<Rightarrow>
               (case extractDirectivesString program codeWithoutShebang of
                  None \<Rightarrow> Inl Panic
                | Some (directives, codeWithoutDirectives) \<Rightarrow>
                    (case Walk (\<lambda>n v. Some (requireEnter n v)) program (new_requireVisitor pre) of
                       None \<Rightarrow> Inl Panic
                     | Some visitor \<Rightarrow>
                         if length (requires visitor) = 0 then Inr source
                         else (case replaceRequireCalls order too_large codeWithoutDirectives
                                      (requireCalls visitor) pre of
                                 None \<Rightarrow> Inl Panic
                               | Some replaced \<Rightarrow>
                                   Inr (shebang @ directives
                                        @ infrastructure is_print (pathOrder visitor)
                                        @ replaced))))))"

section \<open>Example programs\<close>

text \<open>
  Source texts with the trees that the parser builds for them.  \<open>dq\<close> and \<open>sq\<close> put
  a text between double and single quotes; \<open>parser_for\<close> is a parser that knows the
  listed texts and rejects every other.
\<close>

definition dq :: "string \<Rightarrow> string" where
  "dq s = [dquote] @ s @ [dquote]"

definition sq :: "string \<Rightarrow> string" where
  "sq s = [squote] @ s @ [squote]"

definition Ident :: "string \<Rightarrow> propname" where
  "Ident k = PropertyName IdentifierToken k None"

definition Field :: "string \<Rightarrow> dotprop" where
  "Field k = YLiteral IdentifierToken k"

definition parser_for :: "(string \<times> ast) list \<Rightarrow> string \<Rightarrow> ast option" where
  "parser_for table = map_of table"

definition module_exports :: node where
  "module_exports = DotExpr (Var ''module'') (Field ''exports'')"

definition Object_defineProperty :: node where
  "Object_defineProperty = DotExpr (Var ''Object'') (Field ''defineProperty'')"

text \<open>\<^verbatim>\<open>exports["default"] = 1; module.exports = 1;\<close>\<close>

definition default_twice_src :: string where
  "default_twice_src = ''exports['' @ dq ''default'' @ ''] = 1; module.exports = 1;''"

definition default_twice_ast :: ast where
  "default_twice_ast =
     [ExprStmt (BinaryExpr EqToken
        (IndexExpr (Var ''exports'') (LiteralExpr StringToken (dq ''default'')))
        (LiteralExpr NumericToken ''1'')),
      ExprStmt (BinaryExpr EqToken module_exports (LiteralExpr NumericToken ''1''))]"

text \<open>\<^verbatim>\<open>module.exports = {a, b: c, d, 'e': f};\<close>\<close>

definition literal_exports_src :: string where
  "literal_exports_src = ''module.exports = {a, b: c, d, '' @ sq ''e'' @ '': f};''"

definition literal_exports_props :: "property list" where
  "literal_exports_props =
     [Property (Some (Ident ''a'')) False (Var ''a'') None,
      Property (Some (Ident ''b'')) False (Var ''c'') None,
      Property (Some (Ident ''d'')) False (Var ''d'') None,
      Property (Some (PropertyName StringToken (sq ''e'') None)) False (Var ''f'') None]"

definition literal_exports_ast :: ast where
  "literal_exports_ast =
     [ExprStmt (BinaryExpr EqToken module_exports (ObjectExpr literal_exports_props))]"

text \<open>
  \<^verbatim>\<open>Object.defineProperty(exports, 'a', { get: function () { foo(); return q.p; } });\<close>
\<close>

definition busy_getter_src :: string where
  "busy_getter_src =
     ''Object.defineProperty(exports, '' @ sq ''a''
     @ '', { get: function () { foo(); return q.p; } });''"

definition busy_getter_body :: "node list" where
  "busy_getter_body =
     [ExprStmt (CallExpr (Var ''foo'') []), ReturnStmt (Some (DotExpr (Var ''q'') (Field ''p'')))]"

definition busy_getter_ast :: ast where
  "busy_getter_ast =
     [ExprStmt (CallExpr Object_defineProperty
        [Var ''exports'', LiteralExpr StringToken (sq ''a''),
         ObjectExpr [Property (Some (Ident ''get'')) False (FuncDecl busy_getter_body []) None]])]"

text \<open>
  The program of the test \<^verbatim>\<open>TestGetterOptOuts\<close>:
  \<^verbatim>\<open>Object.defineProperty(exports, 'a', { enumerable: true, get: function () { return q.p; } });
  if (false) { Object.defineProperty(exports, 'a', { enumerable: false, get: function () { return dynamic(); } }); }\<close>
\<close>

definition opt_out_src :: string where
  "opt_out_src =
     ''Object.defineProperty(exports, '' @ sq ''a''
     @ '', { enumerable: true, get: function () { return q.p; } }); ''
     @ ''if (false) { Object.defineProperty(exports, '' @ sq ''a''
     @ '', { enumerable: false, get: function () { return dynamic(); } }); }''"

definition opt_out_call :: node where
  "opt_out_call =
     CallExpr Object_defineProperty
       [Var ''exports'', LiteralExpr StringToken (sq ''a''),
        ObjectExpr
          [Property (Some (Ident ''enumerable'')) False (LiteralExpr FalseToken ''false'') None,
           Property (Some (Ident ''get'')) False
             (FuncDecl [ReturnStmt (Some (CallExpr (Var ''dynamic'') []))] []) None]]"

definition opt_out_ast :: ast where
  "opt_out_ast =
     [ExprStmt (CallExpr Object_defineProperty
        [Var ''exports'', LiteralExpr StringToken (sq ''a''),
         ObjectExpr
           [Property (Some (Ident ''enumerable'')) False (LiteralExpr TrueToken ''true'') None,
            Property (Some (Ident ''get'')) False
              (FuncDecl [ReturnStmt (Some (DotExpr (Var ''q'') (Field ''p'')))] []) None]]),
      OtherNode [OtherNode [ExprStmt opt_out_call], LiteralExpr FalseToken ''false'']]"

section \<open>Predicates of the statements\<close>

text \<open>
  A getter as the specification wants it for a safe one: its body is nothing but the
  return of a member access or of an identifier.
\<close>

definition returns_member_only :: "node list \<Rightarrow> bool" where
  "returns_member_only body =
     (case body of [ReturnStmt (Some e)] \<Rightarrow> is_member_access e | _ \<Rightarrow> False)"

text \<open>
  A property of a descriptor at which the loop of \<^verbatim>\<open>shouldExportDefineProperty\<close>
  marks the name: a method that is a getter, or a property of key \<^verbatim>\<open>get\<close>, which
  fails the analyzer's test of a safe getter.
\<close>

definition unsafe_getter_property :: "property \<Rightarrow> bool" where
  "unsafe_getter_property p =
     (case p of Property nm spread val ini \<Rightarrow>
        case val of
          MethodDecl g mname body params \<Rightarrow>
            (case mname of PropertyName tt methodName computed \<Rightarrow>
               (methodName = ''get'' \<or> g) \<and> \<not> isSafeGetterMethod body)
        | _ \<Rightarrow>
            (case nm of
               None \<Rightarrow> False
             | Some pn \<Rightarrow>
                 IsSet pn \<and> extractPropertyName pn = Some ''get'' \<and> \<not> isSafeGetter val))"

text \<open>
  A call \<^verbatim>\<open>Object.defineProperty(exports, "name", {...})\<close> (or on \<^verbatim>\<open>module.exports\<close>)
  whose descriptor has such a property.
\<close>

definition unsafe_define_property :: "string \<Rightarrow> node \<Rightarrow> bool" where
  "unsafe_define_property name n =
     (case n of
        CallExpr callee args \<Rightarrow>
          (case callee of
             DotExpr x y \<Rightarrow>
               isObjectIdent x \<and> isDefinePropertyField y \<and>
               (case args of
                  a0 # a1 # a2 # others \<Rightarrow>
                    (isExportsIdent a0 \<or> isModuleExports a0) \<and>
                    extractStringLiteralV a1 = Some name \<and> name \<noteq> [] \<and>
                    (case a2 of ObjectExpr props \<Rightarrow> list_ex unsafe_getter_property props
                     | _ \<Rightarrow> False)
                | _ \<Rightarrow> False)
           | _ \<Rightarrow> False)
      | _ \<Rightarrow> False)"



text \<open>
  A call as the rewriter's visitor collects it: exactly one argument, a literal of any
  kind, whose text without its quotes starts with the prefix.
\<close>

definition qualifying_call :: "string \<Rightarrow> node \<Rightarrow> bool" where
  "qualifying_call pre n =
     (case n of
        CallExpr x args \<Rightarrow>
          (case args of
             [a] \<Rightarrow> (case a of LiteralExpr tt dat \<Rightarrow> HasPrefix (extractStringLiteral dat) pre
                     | _ \<Rightarrow> False)
           | _ \<Rightarrow> False)
      | _ \<Rightarrow> False)"

text \<open>
  The printable characters of Latin-1 above ASCII, for the table of \<^verbatim>\<open>strconv\<close>; the
  paths of the examples are ASCII and do not reach it.
\<close>

definition latin1_print :: "int \<Rightarrow> bool" where
  "latin1_print r = (161 \<le> r \<and> r \<le> 255 \<and> r \<noteq> 173)"



text \<open>
  A size check for the examples, with a limit far below the library's: a pattern of
  more than a million bytes.
\<close>

definition over_a_million :: "string \<Rightarrow> bool" where
  "over_a_million pattern = (1000000 < int (length pattern))"



text \<open>\<^verbatim>\<open>p.split(/node_modules/);\<close>, a call with a regular expression for its argument.\<close>

definition regex_arg_src :: string where
  "regex_arg_src = ''p.split(/node_modules/);''"

definition regex_arg_ast :: ast where
  "regex_arg_ast =
     [ExprStmt (CallExpr (DotExpr (Var ''p'') (Field ''split''))
        [LiteralExpr RegExpToken ''/node_modules/''])]"

text \<open>
  \<^verbatim>\<open>var a = __require("/node_modules/react");\<close>, the text that one run makes of it,
  and the tree of that text: the import, the table, the lookup function and the
  statement with its call rewritten.
\<close>

definition react_path :: string where
  "react_path = ''/node_modules/react''"

definition once_src :: string where
  "once_src = ''var a = __require('' @ dq react_path @ '');''"

definition once_ast :: ast where
  "once_ast =
     [OtherNode [OtherNode [Var ''a'',
        CallExpr (Var ''__require'') [LiteralExpr StringToken (dq react_path)]]]]"



text \<open>
  \<^verbatim>\<open>/*! lic */\<close>, then on the next lines \<^verbatim>\<open>"use strict";\<close> and
  \<^verbatim>\<open>var a = __require("/node_modules/react");\<close>
\<close>

definition commented_strict_src :: string where
  "commented_strict_src =
     ''/*! lic */'' @ [newline] @ dq ''use strict'' @ '';'' @ [newline] @ once_src"

definition commented_strict_ast :: ast where
  "commented_strict_ast =
     Comment ''/*! lic */'' # DirectivePrologueStmt (dq ''use strict'') # once_ast"

text \<open>
  \<^verbatim>\<open>r("r('r('x")\<close> with the prefix \<^verbatim>\<open>r('\<close>: the pattern for \<open>r\<close> occurs at the
  start of the text and again at its fourth character.
\<close>

definition overlap_prefix :: string where
  "overlap_prefix = ''r('' @ [squote]"

definition overlap_src :: string where
  "overlap_src = ''r('' @ dq (overlap_prefix @ overlap_prefix @ ''x'') @ '')''"

definition overlap_calls :: "requireCall list" where
  "overlap_calls = [\<lparr>funcName = ''r'', path = overlap_prefix @ overlap_prefix @ ''x''\<rparr>]"

text \<open>\<^verbatim>\<open>// my__require ( '/node_modules/a')\<close>, a comment.\<close>

definition in_comment_src :: string where
  "in_comment_src = ''// my__require ( '' @ sq ''/node_modules/a'' @ '')''"

text \<open>
  \<^verbatim>\<open>"use strict"\<close> without a semicolon, and \<^verbatim>\<open>var a = __require("/node_modules/react");\<close>
  on the next line.
\<close>

definition bare_strict_src :: string where
  "bare_strict_src = dq ''use strict'' @ [newline] @ once_src"

definition bare_strict_ast :: ast where
  "bare_strict_ast = DirectivePrologueStmt (dq ''use strict'') # once_ast"

text \<open>\<^verbatim>\<open>f(1);\<close>, a call with a number for its argument.\<close>

definition number_arg_src :: string where
  "number_arg_src = ''f(1);''"

definition number_arg_ast :: ast where
  "number_arg_ast = [ExprStmt (CallExpr (Var ''f'') [LiteralExpr NumericToken ''1''])]"



section \<open>Auxiliary facts about the export visitor\<close>

lemma unescape_some: "\<exists>out. unescapeJSString s = Some out"
  using unescape_loop_total [of s 0 "[]"] by (auto simp: unescapeJSString_def)

lemma extractStringLiteralV_some: "\<exists>out. extractStringLiteralV e = Some out"
  using unescape_some by (cases e) (auto simp: extractStringLiteralV_def)

lemma extractPropertyName_some: "\<exists>out. extractPropertyName pn = Some out"
proof (cases pn)
  case (PropertyName tt dat computed)
  then show ?thesis
    using unescape_some [of "unquote dat"] extractStringLiteralV_some
    by (cases computed) auto
qed

lemma object_key_some: "\<exists>k. object_key p = Some k"
  using extractPropertyName_some
  by (cases p) (auto simp: object_key_def split: option.splits)

definition keeps :: "exportVisitor \<Rightarrow> exportVisitor \<Rightarrow> bool" where
  "keeps v v' = (err v' = err v \<and> set (unsafeGetters v) \<subseteq> set (unsafeGetters v'))"

lemma keeps_refl [simp]: "keeps v v" by (simp add: keeps_def)
lemma keeps_trans: "keeps a b \<Longrightarrow> keeps b c \<Longrightarrow> keeps a c" by (auto simp: keeps_def)
lemma keeps_add_export [simp]: "keeps v (add_export k v)" by (simp add: keeps_def add_export_def)
lemma keeps_mark_unsafe [simp]: "keeps v (mark_unsafe k v)" by (auto simp: keeps_def mark_unsafe_def map_set_def)

lemma extractObjectKeys_some: "\<exists>v'. extractObjectKeys ps v = Some v' \<and> keeps v v'"
proof (induction ps arbitrary: v)
  case Nil
  then show ?case by simp
next
  case (Cons p ps)
  obtain k where k: "object_key p = Some k" using object_key_some by blast
  show ?case
  proof (cases "k = []")
    case True
    with k Cons.IH [of v] show ?thesis by simp
  next
    case False
    from Cons.IH [of "add_export k v"] obtain v' where
      "extractObjectKeys ps (add_export k v) = Some v'" "keeps (add_export k v) v'" by blast
    with k False show ?thesis using keeps_trans [OF keeps_add_export] by auto
  qed
qed

lemma descriptor_step_some: "\<exists>st. descriptor_step p flags = Some st"
proof (cases p)
  case (Property nm spread val ini)
  show ?thesis
  proof (cases nm)
    case None
    with Property show ?thesis by (cases val) (simp_all add: descriptor_step_def)
  next
    case (Some pn)
    obtain k where "extractPropertyName pn = Some k" using extractPropertyName_some by blast
    with Property Some show ?thesis by (cases val) (simp_all add: descriptor_step_def)
  qed
qed

lemma descriptor_verdict_keeps: "keeps v (snd (descriptor_verdict flags name v))"
  by (cases flags) (auto simp: descriptor_verdict_def keeps_def)

lemma descriptor_loop_some:
  "\<exists>ok v'. descriptor_loop ps flags name v = Some (ok, v') \<and> keeps v v'"
proof (induction ps arbitrary: flags)
  case Nil
  show ?case using descriptor_verdict_keeps [of v flags name]
    by (cases "descriptor_verdict flags name v") simp
next
  case (Cons p ps)
  obtain st where st: "descriptor_step p flags = Some st" using descriptor_step_some by blast
  show ?case
  proof (cases st)
    case Return
    with st show ?thesis by auto
  next
    case (Continue flags')
    with st Cons.IH [of flags'] show ?thesis by simp
  qed
qed

lemma assign_default_some: "\<exists>v'. assign_default right v = Some v' \<and> keeps v v'"
proof (cases "\<exists>props. right = ObjectExpr props")
  case True
  then obtain props where r: "right = ObjectExpr props" by blast
  obtain v' where "extractObjectKeys props (v\<lparr>hasDefaultExport := True\<rparr>) = Some v'"
    "keeps (v\<lparr>hasDefaultExport := True\<rparr>) v'" using extractObjectKeys_some by blast
  with r show ?thesis by (auto simp: assign_default_def keeps_def)
next
  case False
  then show ?thesis by (cases right) (auto simp: assign_default_def keeps_def)
qed

lemma assign_field_keeps: "keeps v (assign_field y v)"
  by (cases y) (simp_all add: assign_field_def)

lemma handleAssignment_some: "\<exists>v'. handleAssignment left right v = Some v' \<and> keeps v v'"
proof -
  have idx: "\<And>y. \<exists>v'. (case extractStringLiteralV y of None \<Rightarrow> None
      | Some name \<Rightarrow> if name \<noteq> [] then Some (add_export name v) else Some v) = Some v' \<and> keeps v v'"
  proof -
    fix y
    obtain nm where "extractStringLiteralV y = Some nm" using extractStringLiteralV_some by blast
    then show "\<exists>v'. (case extractStringLiteralV y of None \<Rightarrow> None
      | Some name \<Rightarrow> if name \<noteq> [] then Some (add_export name v) else Some v) = Some v' \<and> keeps v v'"
      by simp
  qed
  show ?thesis
    using assign_default_some [of right v] assign_field_keeps idx
    by (cases left) (simp_all add: handleAssignment_def)
qed

lemma handleCallExpr_some: "\<exists>v'. handleCallExpr callee args v = Some v' \<and> keeps v v'"
proof -
  have main: "\<exists>v'. (case extractStringLiteralV a1 of None \<Rightarrow> None
     | Some name \<Rightarrow>
        if name \<noteq> [] then
          (case a2 of
             ObjectExpr props \<Rightarrow>
               (case shouldExportDefineProperty props name v of
                  None \<Rightarrow> None
                | Some (ok, v') \<Rightarrow> if ok then Some (add_export name v') else Some v')
           | _ \<Rightarrow> Some v)
        else Some v) = Some v' \<and> keeps v v'" for a1 a2
  proof -
    obtain nm where nm: "extractStringLiteralV a1 = Some nm" using extractStringLiteralV_some by blast
    show ?thesis
    proof (cases "\<exists>props. a2 = ObjectExpr props")
      case True
      then obtain props where a2: "a2 = ObjectExpr props" by blast
      obtain ok v' where "descriptor_loop props (False, False, False) nm v = Some (ok, v')" "keeps v v'"
        using descriptor_loop_some by blast
      with nm a2 show ?thesis
        using keeps_trans [OF _ keeps_add_export]
        by (auto simp: shouldExportDefineProperty_def)
    next
      case False
      with nm show ?thesis by (cases a2) auto
    qed
  qed
  show ?thesis
  proof (cases callee)
    case (DotExpr x y)
    show ?thesis
    proof (cases args)
      case Nil
      with DotExpr show ?thesis by (simp add: handleCallExpr_def)
    next
      case (Cons a0 r0)
      show ?thesis
      proof (cases r0)
        case Nil
        with DotExpr Cons show ?thesis by (simp add: handleCallExpr_def)
      next
        case (Cons a1 r1)
        show ?thesis
        proof (cases r1)
          case Nil
          with DotExpr \<open>args = a0 # r0\<close> \<open>r0 = a1 # r1\<close> show ?thesis by (simp add: handleCallExpr_def)
        next
          case (Cons a2 r2)
          with DotExpr \<open>args = a0 # r0\<close> \<open>r0 = a1 # r1\<close> main [where ?a1.0 = a1 and ?a2.0 = a2] show ?thesis
            by (simp add: handleCallExpr_def)
        qed
      qed
    qed
  qed (simp_all add: handleCallExpr_def)
qed

lemma exportEnter_some: "\<exists>v'. exportEnter n v = Some v' \<and> keeps v v'"
  using handleAssignment_some handleCallExpr_some
  by (cases n) (simp_all add: exportEnter_def)

lemma walk_export_some: "\<exists>v'. walk_nodes exportEnter ns v = Some v' \<and> keeps v v'"
proof (induction ns arbitrary: v)
  case Nil
  show ?case by simp
next
  case (Cons n ns)
  obtain v1 where 1: "exportEnter n v = Some v1" "keeps v v1" using exportEnter_some by blast
  obtain v2 where 2: "walk_nodes exportEnter ns v1 = Some v2" "keeps v1 v2" using Cons.IH by blast
  from 1 2 show ?case using keeps_trans by auto
qed

lemma descriptor_step_unsafe:
  "unsafe_getter_property p \<Longrightarrow> descriptor_step p flags = Some Return"
proof (cases p)
  case (Property nm spread val ini)
  assume u: "unsafe_getter_property p"
  show ?thesis
  proof (cases "\<exists>g mname body params. val = MethodDecl g mname body params")
    case True
    then obtain g mname body params where v: "val = MethodDecl g mname body params" by blast
    with u Property show ?thesis
      by (cases mname; cases flags)
        (auto simp: unsafe_getter_property_def descriptor_step_def descriptor_method_def)
  next
    case False
    with u Property obtain pn where
      pn: "nm = Some pn" "IsSet pn" "extractPropertyName pn = Some ''get''" "\<not> isSafeGetter val"
      by (cases val; cases nm) (auto simp: unsafe_getter_property_def)
    with False Property show ?thesis
      by (cases val; cases flags) (auto simp: descriptor_step_def descriptor_key_def)
  qed
qed

lemma descriptor_loop_unsafe:
  "list_ex unsafe_getter_property ps \<Longrightarrow>
   descriptor_loop ps flags name v = Some (False, mark_unsafe name v)"
proof (induction ps arbitrary: flags)
  case Nil
  then show ?case by simp
next
  case (Cons p ps)
  obtain st where st: "descriptor_step p flags = Some st" using descriptor_step_some by blast
  show ?case
  proof (cases st)
    case Return
    with st show ?thesis by simp
  next
    case (Continue flags')
    with st have "\<not> unsafe_getter_property p" using descriptor_step_unsafe [of p flags] by auto
    with Cons.prems have "list_ex unsafe_getter_property ps" by simp
    with Cons.IH [of flags'] st Continue show ?thesis by simp
  qed
qed

lemma exportEnter_marks:
  assumes "unsafe_define_property name n" "exportEnter n v = Some v'"
  shows "name \<in> set (unsafeGetters v')"
proof -
  from assms(1) obtain callee args where n: "n = CallExpr callee args"
    by (cases n) (auto simp: unsafe_define_property_def)
  with assms(1) obtain x y where c: "callee = DotExpr x y"
    by (cases callee) (auto simp: unsafe_define_property_def)
  with n assms(1) obtain a0 a1 a2 others where a: "args = a0 # a1 # a2 # others"
    by (cases args rule: list.exhaust [case_product list.exhaust, case_product list.exhaust])
      (auto simp: unsafe_define_property_def split: list.splits)
  with n c assms(1) obtain props where p: "a2 = ObjectExpr props"
    by (cases a2) (auto simp: unsafe_define_property_def)
  from n c a p assms(1) have facts: "isObjectIdent x" "isDefinePropertyField y"
    "isExportsIdent a0 \<or> isModuleExports a0" "extractStringLiteralV a1 = Some name" "name \<noteq> []"
    "list_ex unsafe_getter_property props"
    by (auto simp: unsafe_define_property_def)
  have "shouldExportDefineProperty props name v = Some (False, mark_unsafe name v)"
    using descriptor_loop_unsafe [OF facts(6)] by (simp add: shouldExportDefineProperty_def)
  with n c a p facts assms(2) have "v' = mark_unsafe name v"
    by (auto simp: exportEnter_def handleCallExpr_def)
  then show ?thesis by (simp add: mark_unsafe_def map_set_def)
qed

lemma walk_export_marks:
  assumes "n \<in> set ns" "unsafe_define_property name n" "walk_nodes exportEnter ns v = Some v'"
  shows "name \<in> set (unsafeGetters v')"
  using assms
proof (induction ns arbitrary: v)
  case Nil
  then show ?case by simp
next
  case (Cons m ns)
  obtain v1 where 1: "exportEnter m v = Some v1" "keeps v v1" using exportEnter_some by blast
  with Cons.prems(3) have 2: "walk_nodes exportEnter ns v1 = Some v'" by simp
  show ?case
  proof (cases "n = m")
    case True
    with Cons.prems(2) 1 have "name \<in> set (unsafeGetters v1)" using exportEnter_marks by blast
    moreover have "keeps v1 v'" using walk_export_some [of ns v1] 2 by auto
    ultimately show ?thesis by (auto simp: keeps_def)
  next
    case False
    with Cons.prems(1) have "n \<in> set ns" by simp
    from Cons.IH [OF this Cons.prems(2) 2] show ?thesis .
  qed
qed

lemma set_fold_map_delete: "set (fold map_delete ks m) = set m - set ks"
  by (induction ks arbitrary: m) (auto simp: map_delete_def)

lemma purge_unsafe_set: "set (purge_unsafe v) = set (exports v) - set (unsafeGetters v)"
  by (simp add: purge_unsafe_def set_fold_map_delete)

lemma ParseExports_parsed:
  assumes "parse (snd (extractShebang code)) = Some program"
  shows "\<exists>v. Walk exportEnter program new_exportVisitor = Some v \<and> err v = None
          \<and> ParseExports parse p code = Inr (finish_exports v)"
proof -
  obtain v where v: "walk_nodes exportEnter (nodes_of_list program) new_exportVisitor = Some v"
    "keeps new_exportVisitor v" using walk_export_some by blast
  then have "err v = None" by (simp add: keeps_def new_exportVisitor_def)
  with v assms show ?thesis by (simp add: ParseExports_def Walk_def)
qed

lemma is_quoted_dq [simp]: "is_quoted (dq s)"
  by (simp add: is_quoted_def dq_def)

lemma is_quoted_sq [simp]: "is_quoted (sq s)"
  by (simp add: is_quoted_def sq_def)

lemma unquote_dq [simp]: "unquote (dq s) = s"
  by (simp add: unquote_def dq_def)

lemma unquote_sq [simp]: "unquote (sq s) = s"
  by (simp add: unquote_def sq_def)

lemma extractObjectKeys_exports:
  "extractObjectKeys ps v = Some v' \<Longrightarrow>
   hasDefaultExport v' = hasDefaultExport v \<and>
   set (exports v') = set (exports v) \<union> {k. k \<noteq> [] \<and> (\<exists>p \<in> set ps. object_key p = Some k)}"
proof (induction ps arbitrary: v)
  case Nil
  then show ?case by simp
next
  case (Cons p ps)
  obtain k where k: "object_key p = Some k" using object_key_some by blast
  show ?case
  proof (cases "k = []")
    case True
    with k Cons.prems have "extractObjectKeys ps v = Some v'" by simp
    from Cons.IH [OF this] k True show ?thesis by auto
  next
    case False
    with k Cons.prems have "extractObjectKeys ps (add_export k v) = Some v'" by simp
    from Cons.IH [OF this] k False show ?thesis
      by (auto simp: add_export_def map_set_def)
  qed
qed

section \<open>Auxiliary facts about the rewriter\<close>






lemma requireEnter_other:
  "\<not> qualifying_call (prefix v) n \<Longrightarrow> requireEnter n v = v"
  by (auto simp: qualifying_call_def requireEnter_def split: node.splits list.splits)

lemma record_call_fields:
  "prefix (record_call x s v) = prefix v"
  "requires (record_call x s v) \<noteq> []"
  "set (requires v) \<subseteq> set (pathOrder v) \<Longrightarrow>
     set (requires (record_call x s v)) \<subseteq> set (pathOrder (record_call x s v))"
  by (auto simp: record_call_def Let_def map_set_def map_has_def)

lemma requireEnter_call:
  "qualifying_call (prefix v) n \<Longrightarrow> \<exists>x s. requireEnter n v = record_call x s v"
  by (auto simp: qualifying_call_def requireEnter_def split: node.splits list.splits)

lemma requireEnter_prefix: "prefix (requireEnter n v) = prefix v"
proof (cases "qualifying_call (prefix v) n")
  case True
  then show ?thesis using requireEnter_call [of v n] record_call_fields(1) by auto
next
  case False
  then show ?thesis by (simp add: requireEnter_other)
qed









lemma replace_passes_fold:
  "replace_passes big names pre s = Some out \<Longrightarrow>
   out = fold (\<lambda>name result. replace_calls name pre result) names s"
  by (induction names arbitrary: s) (auto split: if_splits)

lemma rune_width_cont:
  assumes "0 < j" "j < rune_width u"
  shows "is_cont (u ! j)"
proof (cases u)
  case Nil
  with assms show ?thesis by (simp add: rune_width_def)
next
  case (Cons b0 r)
  show ?thesis
  proof (cases r)
    case Nil
    with Cons assms show ?thesis by (simp add: rune_width_def Let_def split: if_splits)
  next
    case r1: (Cons b1 r1)
    show ?thesis
    proof (cases r1)
      case Nil
      with Cons r1 assms have "j = 1"
        by (auto simp: rune_width_def Let_def split: if_splits)
      with Cons r1 Nil assms show ?thesis
        by (auto simp: rune_width_def Let_def split: if_splits)
    next
      case r2: (Cons b2 r2)
      show ?thesis
      proof (cases r2)
        case Nil
        with Cons r1 r2 assms have "j = 1 \<or> j = 2"
          by (auto simp: rune_width_def Let_def split: if_splits)
        with Cons r1 r2 Nil assms show ?thesis
          by (auto simp: rune_width_def Let_def is_cont_def split: if_splits)
      next
        case r3: (Cons b3 r3)
        with Cons r1 r2 assms have "j = 1 \<or> j = 2 \<or> j = 3"
          by (auto simp: rune_width_def Let_def split: if_splits)
        with Cons r1 r2 r3 assms show ?thesis
          by (auto simp: rune_width_def Let_def is_cont_def split: if_splits)
      qed
    qed
  qed
qed

lemma valid_utf8_head: "valid_utf8 (c # cs) \<Longrightarrow> \<not> is_cont c"
  by (auto simp: is_cont_def rune_width_def Let_def split: if_splits list.splits)

lemma match_literal_self: "match_literal lit (lit @ x) = Some x"
proof (induction lit rule: length_induct)
  case (1 lit)
  show ?case
  proof (cases lit)
    case Nil
    then show ?thesis by (simp add: match_literal.simps)
  next
    case (Cons c cs)
    let ?w = "rune_width (c # cs)"
    have w: "1 \<le> ?w \<and> ?w \<le> length (c # cs)" by (rule rune_width_bounds) simp
    then have t: "take ?w ((c # cs) @ x) = take ?w (c # cs)"
      using take_append [of ?w "c # cs" x] by simp
    from w have d: "drop ?w ((c # cs) @ x) = drop (?w - 1) cs @ x"
      by (cases ?w) simp_all
    have "length (drop (?w - 1) cs) < length lit" using Cons by simp
    with "1.IH" have "match_literal (drop (?w - 1) cs) (drop (?w - 1) cs @ x) = Some x" by blast
    with t d Cons show ?thesis by (simp add: match_literal.simps)
  qed
qed

lemma match_call_occurrence:
  assumes "list_all is_regex_space ws1" "list_all is_regex_space ws2" "q = dquote \<or> q = squote"
  shows "match_call name pre (name @ ws1 @ ''('' @ ws2 @ q # pre @ rest) = Some (q, rest)"
proof -
  have 0: "match_literal name (name @ ws1 @ ''('' @ ws2 @ q # pre @ rest)
      = Some (ws1 @ ''('' @ ws2 @ q # pre @ rest)"
    by (rule match_literal_self)
  have 1: "dropWhile is_regex_space (ws1 @ CHR ''('' # ws2 @ q # pre @ rest)
      = CHR ''('' # ws2 @ q # pre @ rest"
    using assms(1) by (simp add: dropWhile_append3 list_all_iff is_regex_space_def)
  have 2: "dropWhile is_regex_space (ws2 @ q # pre @ rest) = q # pre @ rest"
    using assms(2,3) by (auto simp: dropWhile_append3 list_all_iff is_regex_space_def)
  have 3: "match_literal pre (pre @ rest) = Some rest" by (rule match_literal_self)
  from 0 1 2 3 assms(3) show ?thesis
    by (auto simp: match_call_def)
qed

lemma replace_calls_copy:
  assumes "s \<noteq> []" "\<not> is_cont (hd s)"
  shows "\<forall>i<length t. match_call name pre (drop i (t @ s)) = None \<Longrightarrow>
         replace_calls name pre (t @ s) = t @ replace_calls name pre s"
proof (induction t rule: length_induct)
  case (1 t)
  show ?case
  proof (cases t)
    case Nil
    then show ?thesis by simp
  next
    case (Cons c t')
    let ?u = "c # t' @ s"
    let ?w = "rune_width ?u"
    from "1.prems" Cons have m0: "match_call name pre ?u = None" by fastforce
    have wb: "1 \<le> ?w \<and> ?w \<le> length ?u" by (rule rune_width_bounds) simp
    have wt: "?w \<le> length t"
    proof (rule ccontr)
      assume "\<not> ?w \<le> length t"
      then have "0 < length t \<and> length t < ?w" using Cons by simp
      then have "is_cont (?u ! length t)" using rune_width_cont by blast
      moreover have "?u ! length t = hd s"
        using Cons assms(1) by (simp add: nth_append hd_conv_nth)
      ultimately show False using assms(2) by simp
    qed
    let ?t2 = "drop (?w - 1) t'"
    have len: "length ?t2 < length t" using Cons by simp
    have shift: "\<forall>i<length ?t2. match_call name pre (drop i (?t2 @ s)) = None"
    proof (intro allI impI)
      fix i assume i: "i < length ?t2"
      then have "i + ?w < length t" using Cons wb by simp
      with "1.prems" have "match_call name pre (drop (i + ?w) (t @ s)) = None" by blast
      moreover have "drop (i + ?w) (t @ s) = drop i (?t2 @ s)"
        using Cons wb wt by (cases ?w) (simp_all add: add.commute)
      ultimately show "match_call name pre (drop i (?t2 @ s)) = None" by simp
    qed
    from "1.IH" len shift have ih: "replace_calls name pre (?t2 @ s) = ?t2 @ replace_calls name pre s"
      by blast
    have tk: "take ?w ?u = take ?w t"
      using take_append [of ?w "c # t'" s] Cons wt by simp
    have dr: "drop (?w - 1) (t' @ s) = ?t2 @ s" using Cons wt by simp
    have r1: "replace_calls name pre ?u = take ?w ?u @ replace_calls name pre (drop (?w - 1) (t' @ s))"
      using m0 by (simp add: replace_calls.simps)
    have r2: "take ?w t @ ?t2 = t" using Cons wb by (cases ?w) simp_all
    have "replace_calls name pre ?u = (take ?w t @ ?t2) @ replace_calls name pre s"
      using r1 tk dr ih by simp
    with r2 Cons show ?thesis by simp
  qed
qed

section \<open>The escape decoder: results\<close>

text \<open>
  C9.  The escape decoder is total: on every input string, whatever its bytes (a bare
  backslash at the end, a truncated escape, an unterminated \<^verbatim>\<open>\u{\<close>), it returns an
  output string; no index or slice of the decoder is out of range.
\<close>

theorem unescapeJSString_total: "\<exists>out. unescapeJSString s = Some out"
  using unescape_loop_total [of s 0 "[]"] by (auto simp: unescapeJSString_def)

text \<open>
  C5.  On \<^verbatim>\<open>\xZZb\<close>, a hex escape followed by two characters that are no hex digits,
  the decoder does not emit \<open>x\<close> and go on after the \<open>x\<close>: it takes the branch of the
  well-formed escape, scans \<open>ZZ\<close> without success, emits the character of code 0 and
  goes on after the four bytes.  The output is that character followed by \<open>b\<close>.
\<close>

theorem hex_escape_without_hex_digits:
  "unescapeJSString (bslash # ''xZZb'') = Some [CHR 0x00, CHR ''b'']"
  by code_simp

section \<open>The export analysis: results\<close>

text \<open>
  C3, as the claim states it, fails.  The getter of
  \<^verbatim>\<open>Object.defineProperty(exports, 'a', { get: function () { foo(); return q.p; } })\<close>
  has a body that is not simply the return of a member access, yet the analyzer takes
  it for safe, because one of the statements of the body is such a return: \<open>a\<close> is
  exported.
\<close>

theorem busy_getter_is_exported:
  "\<not> returns_member_only busy_getter_body
   \<and> ParseExports (parser_for [(busy_getter_src, busy_getter_ast)]) ''test.js'' busy_getter_src
       = Inr [''a'']"
  by code_simp

text \<open>
  C3, as amended.  If the tree has, anywhere, a call
  \<^verbatim>\<open>Object.defineProperty(exports, "NAME", {...})\<close> (or on \<^verbatim>\<open>module.exports\<close>) whose
  descriptor has a getter that fails the analyzer's own test \<^verbatim>\<open>isSafeGetter\<close> or
  \<^verbatim>\<open>isSafeGetterMethod\<close>, then the analysis succeeds and NAME is not among the
  names it returns, whatever else the source says about NAME, before or after; the
  name \<^verbatim>\<open>default\<close> apart, which an assignment to \<^verbatim>\<open>module.exports\<close> appends after the
  unsafe names have been removed.
\<close>

theorem unsafe_getter_excludes_name:
  assumes "parse (snd (extractShebang code)) = Some program"
    and "n \<in> set (nodes_of_list program)"
    and "unsafe_define_property name n"
    and "name \<noteq> ''default''"
  shows "\<exists>names. ParseExports parse p code = Inr names \<and> name \<notin> set names"
proof -
  from ParseExports_parsed [of parse code program p, OF assms(1)] obtain v where
    v: "Walk exportEnter program new_exportVisitor = Some v"
    "ParseExports parse p code = Inr (finish_exports v)" by blast
  from v(1) have "name \<in> set (unsafeGetters v)"
    using walk_export_marks [OF assms(2,3)] by (simp add: Walk_def)
  then have "name \<notin> set (purge_unsafe v)" by (simp add: purge_unsafe_set)
  with assms(4) have "name \<notin> set (finish_exports v)" by (simp add: finish_exports_def)
  with v(2) show ?thesis by simp
qed

text \<open>
  The theorem at the program of the test \<^verbatim>\<open>TestGetterOptOuts\<close>: a safe getter for
  \<open>a\<close> first, an unsafe one later, inside a block.
\<close>

theorem unsafe_getter_excludes_name_witness:
  "parser_for [(opt_out_src, opt_out_ast)] (snd (extractShebang opt_out_src)) = Some opt_out_ast
   \<and> opt_out_call \<in> set (nodes_of_list opt_out_ast)
   \<and> unsafe_define_property ''a'' opt_out_call
   \<and> (\<exists>names. ParseExports (parser_for [(opt_out_src, opt_out_ast)]) ''test.js'' opt_out_src = Inr names
        \<and> ''a'' \<notin> set names)"
proof -
  have 1: "parser_for [(opt_out_src, opt_out_ast)] (snd (extractShebang opt_out_src)) = Some opt_out_ast"
    by code_simp
  have 2: "opt_out_call \<in> set (nodes_of_list opt_out_ast)" by code_simp
  have 3: "unsafe_define_property ''a'' opt_out_call" by code_simp
  have 4: "''a'' \<noteq> ''default''" by simp
  from unsafe_getter_excludes_name
    [of "parser_for [(opt_out_src, opt_out_ast)]" opt_out_src opt_out_ast opt_out_call "''a''" "''test.js''",
     OF 1 2 3 4] 1 2 3
  show ?thesis by blast
qed

text \<open>
  C6.  Entering the assignment \<^verbatim>\<open>module.exports = { ... }\<close> sets
  \<^verbatim>\<open>hasDefaultExport\<close> and adds to the exports exactly the non-empty keys of the
  properties of the object literal.  A spread entry gives no key; a property whose name
  is an identifier gives that identifier, whatever its value (so the shorthand \<open>{a}\<close>
  and \<open>b: c\<close> alike); a string-literal key and a computed key that is a string literal
  give the decoded string.  And \<^verbatim>\<open>module.exports = {a, b: c, d, 'e': f};\<close> yields
  \<open>a\<close>, \<open>b\<close>, \<open>d\<close>, \<open>default\<close>, \<open>e\<close>.
\<close>

theorem module_exports_object_keys:
  "(isExportsField y \<longrightarrow>
      (\<exists>v'. exportEnter (BinaryExpr EqToken (DotExpr (Var ''module'') y) (ObjectExpr props)) v = Some v'
         \<and> hasDefaultExport v'
         \<and> set (exports v') =
             set (exports v) \<union> {k. k \<noteq> [] \<and> (\<exists>p \<in> set props. object_key p = Some k)}))
   \<and> object_key (Property nm True val ini) = Some []
   \<and> (tt \<noteq> ErrorToken \<and> \<not> is_quoted k \<longrightarrow>
        object_key (Property (Some (PropertyName tt k None)) False val ini) = Some k)
   \<and> (tt \<noteq> ErrorToken \<longrightarrow>
        object_key (Property (Some (PropertyName tt (dq s) None)) False val ini) = unescapeJSString s
        \<and> object_key (Property (Some (PropertyName tt (sq s) None)) False val ini) = unescapeJSString s)
   \<and> object_key (Property (Some (PropertyName tt d (Some (LiteralExpr tt' (dq s))))) False val ini)
        = unescapeJSString s
   \<and> object_key (Property (Some (PropertyName tt d (Some (LiteralExpr tt' (sq s))))) False val ini)
        = unescapeJSString s
   \<and> ParseExports (parser_for [(literal_exports_src, literal_exports_ast)]) ''test.js''
        literal_exports_src = Inr [''a'', ''b'', ''d'', ''default'', ''e'']"
proof -
  have main: "\<exists>v'. exportEnter (BinaryExpr EqToken (DotExpr (Var ''module'') y) (ObjectExpr props)) v = Some v'
         \<and> hasDefaultExport v'
         \<and> set (exports v') =
             set (exports v) \<union> {k. k \<noteq> [] \<and> (\<exists>p \<in> set props. object_key p = Some k)}"
    if y: "isExportsField y"
  proof -
    obtain v' where v': "extractObjectKeys props (v\<lparr>hasDefaultExport := True\<rparr>) = Some v'"
      using extractObjectKeys_some by blast
    from y have "exportEnter (BinaryExpr EqToken (DotExpr (Var ''module'') y) (ObjectExpr props)) v
        = extractObjectKeys props (v\<lparr>hasDefaultExport := True\<rparr>)"
      by (simp add: exportEnter_def handleAssignment_def isExportsIdent_def isModuleExports_def
          isModuleIdent_def assign_default_def)
    with v' extractObjectKeys_exports [OF v'] show ?thesis by simp
  qed
  have spread: "object_key (Property nm True val ini) = Some []"
    by (simp add: object_key_def)
  have ident: "object_key (Property (Some (PropertyName tt k None)) False val ini) = Some k"
    if "tt \<noteq> ErrorToken \<and> \<not> is_quoted k"
    using that by (simp add: object_key_def)
  have strkey: "object_key (Property (Some (PropertyName tt (dq s) None)) False val ini) = unescapeJSString s
        \<and> object_key (Property (Some (PropertyName tt (sq s) None)) False val ini) = unescapeJSString s"
    if "tt \<noteq> ErrorToken"
    using that by (simp add: object_key_def)
  have comp1: "object_key (Property (Some (PropertyName tt d (Some (LiteralExpr tt' (dq s))))) False val ini)
        = unescapeJSString s"
    by (simp add: object_key_def extractStringLiteralV_def)
  have comp2: "object_key (Property (Some (PropertyName tt d (Some (LiteralExpr tt' (sq s))))) False val ini)
        = unescapeJSString s"
    by (simp add: object_key_def extractStringLiteralV_def)
  have ex: "ParseExports (parser_for [(literal_exports_src, literal_exports_ast)]) ''test.js''
        literal_exports_src = Inr [''a'', ''b'', ''d'', ''default'', ''e'']"
    by code_simp
  from main spread ident strkey comp1 comp2 ex show ?thesis by blast
qed

text \<open>The theorem at the object literal of that program and at its first property.\<close>

theorem module_exports_object_keys_witness:
  "isExportsField (Field ''exports'')
   \<and> (\<exists>v'. exportEnter (BinaryExpr EqToken (DotExpr (Var ''module'') (Field ''exports''))
              (ObjectExpr literal_exports_props)) new_exportVisitor = Some v'
         \<and> hasDefaultExport v'
         \<and> set (exports v') =
             set (exports new_exportVisitor)
             \<union> {k. k \<noteq> [] \<and> (\<exists>p \<in> set literal_exports_props. object_key p = Some k)})
   \<and> IdentifierToken \<noteq> ErrorToken \<and> \<not> is_quoted ''a''
   \<and> object_key (Property (Some (PropertyName IdentifierToken ''a'' None)) False (Var ''a'') None) = Some ''a''"
proof -
  have 1: "isExportsField (Field ''exports'')" by (simp add: isExportsField_def Field_def)
  have 2: "IdentifierToken \<noteq> ErrorToken \<and> \<not> is_quoted ''a''" by (simp add: is_quoted_def)
  from module_exports_object_keys
    [of "Field ''exports''" literal_exports_props new_exportVisitor None "Var ''a''" None
      IdentifierToken "''a''"] 1 2
  show ?thesis by blast
qed

text \<open>
  C2.  On \<^verbatim>\<open>exports["default"] = 1; module.exports = 1;\<close> the name \<open>default\<close> is in
  the export map and \<^verbatim>\<open>hasDefaultExport\<close> is set: \<open>default\<close> is appended to the keys
  of the map without a look at them, and the sorted result has it twice.
\<close>

theorem default_exported_twice:
  "ParseExports (parser_for [(default_twice_src, default_twice_ast)]) ''test.js'' default_twice_src
     = Inr [''default'', ''default'']"
  by code_simp

section \<open>Errors\<close>




section \<open>The rewriter: results\<close>

text \<open>
  C8.  \<^verbatim>\<open>p.split(/node_modules/);\<close> has no call with a string literal for its one
  argument, yet with the prefix \<^verbatim>\<open>/node_modules/\<close> the source does not come back
  unchanged: the visitor tests the argument for being a literal, not for being a string,
  and the text of the regular expression starts with the prefix.  The scaffolding for
  the path \<^verbatim>\<open>/node_modules/\<close> is put in front of the source.  The same happens to
  \<^verbatim>\<open>f(1);\<close> with the prefix \<^verbatim>\<open>1\<close>.
\<close>

theorem regex_argument_is_rewritten:
  "RewriteRequires (parser_for [(regex_arg_src, regex_arg_ast)]) id latin1_print over_a_million ''test.js''
      ''/node_modules/'' regex_arg_src
     = Inr (infrastructure latin1_print [''/node_modules/''] @ regex_arg_src)
   \<and> RewriteRequires (parser_for [(number_arg_src, number_arg_ast)]) id latin1_print over_a_million ''test.js''
      ''1'' number_arg_src
     = Inr (infrastructure latin1_print [''1''] @ number_arg_src)
   \<and> infrastructure latin1_print [''/node_modules/''] @ regex_arg_src \<noteq> regex_arg_src
   \<and> infrastructure latin1_print [''1''] @ number_arg_src \<noteq> number_arg_src"
  by code_simp

text \<open>
  C7.  A directive after a comment is in the tree's prologue, but the scan of the text
  stops at the comment: nothing is extracted, and \<^verbatim>\<open>"use strict";\<close> stays in the
  body, below the scaffolding.  A directive without a semicolon is scanned over and
  neither extracted nor left in the body: it is in the output no more.
\<close>

theorem directive_left_below_scaffolding:
  "RewriteRequires (parser_for [(commented_strict_src, commented_strict_ast)]) id latin1_print over_a_million
      ''test.js'' ''/node_modules/'' commented_strict_src
     = Inr (infrastructure latin1_print [react_path]
            @ ''/*! lic */'' @ [newline] @ dq ''use strict'' @ '';'' @ [newline]
            @ ''var a = __cjs_require__('' @ dq react_path @ '');'')
   \<and> RewriteRequires (parser_for [(bare_strict_src, bare_strict_ast)]) id latin1_print over_a_million
      ''test.js'' ''/node_modules/'' bare_strict_src
     = Inr (infrastructure latin1_print [react_path]
            @ ''var a = __cjs_require__('' @ dq react_path @ '');'')"
  by code_simp




text \<open>
  C10, as the claim states it, fails.  In \<^verbatim>\<open>r("r('r('x")\<close> with the prefix
  \<^verbatim>\<open>r('\<close> the pattern for \<open>r\<close> occurs at the start and at the fourth character.
  The first occurrence is rewritten and the search goes on after it, at the seventh
  character: the second occurrence, which starts inside the first, is copied as it is.
\<close>

theorem overlapping_occurrence_is_left:
  "match_call ''r'' overlap_prefix overlap_src \<noteq> None
   \<and> match_call ''r'' overlap_prefix (drop 3 overlap_src) \<noteq> None
   \<and> replaceRequireCalls id over_a_million overlap_src overlap_calls overlap_prefix
       = Some (''__cjs_require__('' @ [dquote] @ overlap_prefix @ drop 6 overlap_src)"
  by code_simp

text \<open>
  C10, as amended.  The substitution works on the text alone, one pass for each
  distinct callee name, each pass on the text that the pass before has left, in the
  order in which Go walks the map.  A pass copies the text up to the first place at
  which the callee name, optional white space, a parenthesis, optional white space, a
  quote and the prefix stand, writes \<^verbatim>\<open>__cjs_require__(\<close>, that quote and the prefix
  for them, and goes on in the same way behind them; what stands before the name, a
  longer identifier, a comment or a string, plays no part.
\<close>

theorem textual_substitution:
  assumes "list_all is_regex_space ws1" "list_all is_regex_space ws2" "q = dquote \<or> q = squote"
    and "valid_utf8 name"
    and "\<forall>i<length t. match_call name pre (drop i (t @ name @ ws1 @ ''('' @ ws2 @ q # pre @ rest)) = None"
  shows "replace_calls name pre (t @ name @ ws1 @ ''('' @ ws2 @ q # pre @ rest)
           = t @ ''__cjs_require__('' @ q # pre @ replace_calls name pre rest
         \<and> (\<forall>out. replaceRequireCalls order big body calls pre = Some out \<longrightarrow>
               out = fold (\<lambda>name result. replace_calls name pre result)
                       (order (remdups (map funcName calls))) body)"
proof -
  let ?occ = "name @ ws1 @ ''('' @ ws2 @ q # pre @ rest"
  have m: "match_call name pre ?occ = Some (q, rest)"
    using match_call_occurrence [OF assms(1-3)] .
  obtain c cs where occ: "?occ = c # cs" by (cases ?occ) auto
  have ne: "?occ \<noteq> []" by simp
  have hd: "\<not> is_cont (hd ?occ)"
  proof (cases name)
    case Nil
    show ?thesis
    proof (cases ws1)
      case Nil
      with \<open>name = []\<close> show ?thesis by (simp add: is_cont_def)
    next
      case (Cons w ws)
      with assms(1) have "is_regex_space w" by simp
      then have "\<not> is_cont w" by (auto simp: is_regex_space_def is_cont_def)
      with Cons \<open>name = []\<close> show ?thesis by simp
    qed
  next
    case (Cons a as)
    with assms(4) show ?thesis using valid_utf8_head [of a as] by simp
  qed
  have "replace_calls name pre ?occ = ''__cjs_require__('' @ [q] @ pre @ replace_calls name pre rest"
    using m unfolding occ by (simp add: replace_calls.simps)
  moreover have "replace_calls name pre (t @ ?occ) = t @ replace_calls name pre ?occ"
    using replace_calls_copy [OF ne hd assms(5)] .
  ultimately show ?thesis
    using replace_passes_fold by (auto simp: replaceRequireCalls_def funcNames_def)
qed

text \<open>
  The theorem at the comment \<^verbatim>\<open>// my__require ( '/node_modules/a')\<close>, where the name
  ends a longer identifier.
\<close>

theorem textual_substitution_witness:
  "list_all is_regex_space '' '' \<and> (squote = dquote \<or> squote = squote) \<and> valid_utf8 ''__require''
   \<and> list_all (\<lambda>i. match_call ''__require'' ''/node_modules/''
         (drop i (''// my'' @ ''__require'' @ '' '' @ ''('' @ '' '' @ squote # ''/node_modules/''
                  @ ''a'' @ [squote] @ '')'')) = None) [0..<length ''// my'']
   \<and> replace_calls ''__require'' ''/node_modules/'' in_comment_src
       = ''// my'' @ ''__cjs_require__('' @ squote # ''/node_modules/''
         @ replace_calls ''__require'' ''/node_modules/'' (''a'' @ [squote] @ '')'')"
proof -
  have 1: "list_all is_regex_space '' ''" by (simp add: is_regex_space_def)
  have 2: "squote = dquote \<or> squote = squote" by simp
  have 3: "valid_utf8 ''__require''" by simp
  have 4: "list_all (\<lambda>i. match_call ''__require'' ''/node_modules/''
         (drop i (''// my'' @ ''__require'' @ '' '' @ ''('' @ '' '' @ squote # ''/node_modules/''
                  @ ''a'' @ [squote] @ '')'')) = None) [0..<length ''// my'']"
    by code_simp
  then have 5: "\<forall>i<length ''// my''. match_call ''__require'' ''/node_modules/''
         (drop i (''// my'' @ ''__require'' @ '' '' @ ''('' @ '' '' @ squote # ''/node_modules/''
                  @ ''a'' @ [squote] @ '')'')) = None"
    unfolding list_all_iff by (metis atLeastLessThan_iff set_upt zero_le)
  have 6: "in_comment_src = ''// my'' @ ''__require'' @ '' '' @ ''('' @ '' '' @ squote # ''/node_modules/''
                  @ ''a'' @ [squote] @ '')''"
    by (simp add: in_comment_src_def sq_def)
  from textual_substitution [OF 1 1 2 3 5, of id over_a_million "[]" "[]"] 6
  have 7: "replace_calls ''__require'' ''/node_modules/'' in_comment_src
       = ''// my'' @ ''__cjs_require__('' @ squote # ''/node_modules/''
         @ replace_calls ''__require'' ''/node_modules/'' (''a'' @ [squote] @ '')'')"
    by simp
  from 1 2 3 4 7 show ?thesis by blast
qed

end
